theory Spec2Isabelle
  imports Main
begin

section \<open>JavaScript strings\<close>

text \<open>
  A JavaScript string is a sequence of code units. It is modelled as a \<^typ>\<open>string\<close>,
  one \<^typ>\<open>char\<close> for each code unit, which covers the code units below 256. The white
  space of \<open>trim\<close> and of the regular expression class \<open>\s\<close> is, in that range, the six
  ASCII characters and the no-break space.
\<close>

definition is_ws :: "char \<Rightarrow> bool" where
  "is_ws c = (c = CHR 0x09 \<or> c = CHR 0x0A \<or> c = CHR 0x0B \<or> c = CHR 0x0C
              \<or> c = CHR 0x0D \<or> c = CHR 0x20 \<or> c = CHR 0xA0)"

definition trim :: "string \<Rightarrow> string" where
  "trim s = rev (dropWhile is_ws (rev (dropWhile is_ws s)))"

text \<open>\<open>s.startsWith(p)\<close> and \<open>s.endsWith(p)\<close>.\<close>

fun startsWith :: "string \<Rightarrow> string \<Rightarrow> bool" where
  "startsWith s [] = True"
| "startsWith [] (p # ps) = False"
| "startsWith (c # cs) (p # ps) = (c = p \<and> startsWith cs ps)"

definition endsWith :: "string \<Rightarrow> string \<Rightarrow> bool" where
  "endsWith s p = startsWith (rev s) (rev p)"

text \<open>\<open>s.indexOf(p)\<close>: the first position at which \<open>p\<close> occurs, \<open>None\<close> for -1.\<close>

fun indexOf :: "string \<Rightarrow> string \<Rightarrow> nat option" where
  "indexOf [] p = (if p = [] then Some 0 else None)"
| "indexOf (c # cs) p =
     (if startsWith (c # cs) p then Some 0 else map_option Suc (indexOf cs p))"

definition js_includes :: "string \<Rightarrow> string \<Rightarrow> bool" where
  "js_includes s p = (indexOf s p \<noteq> None)"

text \<open>
  \<open>s.substring(a, b)\<close>: both indices are clamped to the length, and they are swapped when
  the first is the larger one. \<open>s.substring(a)\<close> is \<open>drop a s\<close>.
\<close>

definition substring :: "string \<Rightarrow> nat \<Rightarrow> nat \<Rightarrow> string" where
  "substring s a b =
     (let a' = min a (length s); b' = min b (length s)
      in take (max a' b' - min a' b') (drop (min a' b') s))"

text \<open>
  \<open>s.replace(p, r)\<close> with a string pattern replaces the first occurrence only. The
  replacement strings of the source are empty, so no \<open>$\<close> pattern is expanded.
\<close>

definition replace_first :: "string \<Rightarrow> string \<Rightarrow> string \<Rightarrow> string" where
  "replace_first s p r =
     (case indexOf s p of None \<Rightarrow> s | Some i \<Rightarrow> take i s @ r @ drop (i + length p) s)"

text \<open>
  \<open>s.split(sep)\<close> with a string separator: the parts between the occurrences of \<open>sep\<close>, found
  from left to right, each search starting behind the previous occurrence. With the empty
  separator the string is cut into its code units.
\<close>

lemma indexOf_bound: "indexOf s p = Some i \<Longrightarrow> i + length p \<le> length s"
proof (induction s arbitrary: i)
  case Nil
  then show ?case by (simp split: if_splits)
next
  case (Cons c cs)
  have sw: "\<And>s. startsWith s p \<Longrightarrow> length p \<le> length s"
  proof -
    fix s show "startsWith s p \<Longrightarrow> length p \<le> length s"
      by (induction s p rule: startsWith.induct) auto
  qed
  show ?case
  proof (cases "startsWith (c # cs) p")
    case True
    with Cons.prems sw [of "c # cs"] show ?thesis by simp
  next
    case False
    with Cons.prems obtain j where "indexOf cs p = Some j" "i = Suc j" by auto
    with Cons.IH [of j] show ?thesis by simp
  qed
qed

function js_split :: "string \<Rightarrow> string \<Rightarrow> string list" where
  "js_split s sep =
     (if sep = [] then map (\<lambda>c. [c]) s
      else case indexOf s sep of
             None \<Rightarrow> [s]
           | Some i \<Rightarrow> take i s # js_split (drop (i + length sep) s) sep)"
  by pat_completeness auto
termination
proof (relation "measure (\<lambda>(s, sep). length s)")
  show "wf (measure (\<lambda>(s, sep). length s))" by simp
next
  fix s sep :: string and i
  assume "sep \<noteq> []" and "indexOf s sep = Some i"
  then have "i + length sep \<le> length s" and "0 < length sep"
    by (simp_all add: indexOf_bound)
  then show "((drop (i + length sep) s, sep), (s, sep)) \<in> measure (\<lambda>(s, sep). length s)"
    by (cases sep) simp_all
qed

declare js_split.simps [simp del]

text \<open>\<open>parts.join(sep)\<close>.\<close>

fun join :: "string list \<Rightarrow> string \<Rightarrow> string" where
  "join [] sep = []"
| "join [x] sep = x"
| "join (x # y # ys) sep = x @ sep @ join (y # ys) sep"

text \<open>Decimal digits of a number, as a template literal prints an array index.\<close>

definition digit_char :: "nat \<Rightarrow> char" where
  "digit_char d = char_of (48 + d)"

function show_nat :: "nat \<Rightarrow> string" where
  "show_nat n = (if n < 10 then [digit_char n] else show_nat (n div 10) @ [digit_char (n mod 10)])"
  by pat_completeness auto
termination
  by (relation "measure id") auto

declare show_nat.simps [simp del]

section \<open>Violation message parser\<close>

text \<open>A \<open>ParsedViolation\<close>; its field \<open>id\<close> is \<open>viol_id\<close> here.\<close>

record ParsedViolation =
  viol_id :: string
  rule :: string
  description :: string
  helpUrl :: "string option"
  raw :: string

text \<open>The dictionary \<open>FRIENDLY_TITLES\<close>, in the order of \<open>Object.entries\<close>.\<close>

definition FRIENDLY_TITLES :: "(string \<times> string) list" where
  \<open>FRIENDLY_TITLES =
    [(''aria-labelledby attribute does not exist, references elements that do not exist or references elements that are empty'', ''Missing Label''),
     (''Element has insufficient color contrast'', ''Low Color Contrast''),
     (''Link Name Rule'', ''Missing Link Text''),
     (''Image Alt Rule'', ''Missing Image Alt Text''),
     (''Form element does not have an implicit (wrapped) <label>'', ''Missing Form Label''),
     (''Form element does not have an explicit <label>'', ''Missing Form Label''),
     (''Element has no title attribute'', ''Missing Title Attribute''),
     (''aria-label attribute does not exist or is empty'', ''Missing ARIA Label''),
     (''Element does not have text that is visible to screen readers'', ''No Screen Reader Text''),
     (''Frame Title Rule'', ''Missing Frame Title''),
     (''Button Name Rule'', ''Missing Button Name''),
     (''Link In Text Block Rule'', ''Poor Link Distinction''),
     (''Select Name Rule'', ''Missing Select Name''),
     (''Aria Roles Rule'', ''Invalid ARIA Role''),
     (''Nested Interactive Rule'', ''Nested Interactive Controls''),
     (''Element's default semantics were not overridden with role="none" or role="presentation"'', ''Redundant Image''),
     (''Aria Hidden Focus Rule'', ''Focusable Hidden Element''),
     (''Role Img Alt Rule'', ''Missing Role=Img Alt Text''),
     (''Aria Required Children Rule'', ''Missing Required ARIA Children'')]\<close>

text \<open>\<open>clean.replace(/""/g, '"')\<close>: every pair of double quotes, from the left, becomes one.\<close>

fun unescape_quotes :: "string \<Rightarrow> string" where
  "unescape_quotes (a # b # cs) =
     (if a = CHR 0x22 \<and> b = CHR 0x22 then CHR 0x22 # unescape_quotes cs
      else a # unescape_quotes (b # cs))"
| "unescape_quotes cs = cs"

text \<open>
  The regular expression \<open>https?:\/\/[^\s]+\<close> matched at the start of a string: the scheme,
  then the longest run of characters that are not white space, which must not be empty.
\<close>

definition http_token :: "string \<Rightarrow> string option" where
  "http_token r =
     (let non_ws = takeWhile (\<lambda>c. \<not> is_ws c)
      in if startsWith r ''https://'' \<and> non_ws (drop 8 r) \<noteq> []
           then Some (''https://'' @ non_ws (drop 8 r))
         else if startsWith r ''http://'' \<and> non_ws (drop 7 r) \<noteq> []
           then Some (''http://'' @ non_ws (drop 7 r))
         else None)"

text \<open>
  \<open>clean.match(/More information: (https?:\/\/[^\s]+)/)\<close>: the leftmost match; the result
  is the captured group, the whole match being the label followed by the group.
\<close>

definition more_info_label :: string where
  "more_info_label = ''More information: ''"

fun match_more_info :: "string \<Rightarrow> string option" where
  "match_more_info [] = None"
| "match_more_info (c # cs) =
     (if startsWith (c # cs) more_info_label
      then (case http_token (drop (length more_info_label) (c # cs)) of
              Some u \<Rightarrow> Some u
            | None \<Rightarrow> match_more_info cs)
      else match_more_info cs)"

text \<open>
  \<open>clean.match(/^\[([^\]]+)\]/)\<close>: an opening bracket at the start, at least one
  character other than the closing bracket, and the closing bracket. The result is the
  captured group.
\<close>

definition bracket_tag :: "string \<Rightarrow> string option" where
  "bracket_tag s =
     (case s of
        [] \<Rightarrow> None
      | c # cs \<Rightarrow>
          if c = CHR ''[''
             \<and> takeWhile (\<lambda>x. x \<noteq> CHR '']'') cs \<noteq> []
             \<and> dropWhile (\<lambda>x. x \<noteq> CHR '']'') cs \<noteq> []
          then Some (takeWhile (\<lambda>x. x \<noteq> CHR '']'') cs)
          else None)"

text \<open>The first dictionary entry whose key occurs in the text.\<close>

definition dictionary_title :: "string \<Rightarrow> string option" where
  "dictionary_title clean =
     map_option snd (find (\<lambda>(key, title). js_includes clean key) FRIENDLY_TITLES)"

text \<open>The text a part is reduced to before the help link is looked for.\<close>

definition strip_prefix_and_quotes :: "string \<Rightarrow> string" where
  "strip_prefix_and_quotes part =
     (let clean = trim part;
          clean = (if startsWith clean ''violation: '' then trim (drop 11 clean) else clean)
      in if startsWith clean [CHR 0x22] \<and> endsWith clean [CHR 0x22]
         then unescape_quotes (substring clean 1 (length clean - 1))
         else clean)"

text \<open>The help link, and the text without the label and the link.\<close>

definition extract_help_url :: "string \<Rightarrow> string option \<times> string" where
  "extract_help_url clean =
     (case match_more_info clean of
        Some u \<Rightarrow> (Some u, trim (replace_first clean (more_info_label @ u) []))
      | None \<Rightarrow> (None, clean))"

text \<open>The working text of a part when the rule is resolved.\<close>

definition working_text :: "string \<Rightarrow> string" where
  "working_text part = snd (extract_help_url (strip_prefix_and_quotes part))"

text \<open>The rule title, and the text that is left for the description.\<close>

definition resolve_rule :: "string \<Rightarrow> string \<times> string" where
  "resolve_rule clean =
     (case bracket_tag clean of
        Some tag \<Rightarrow> (tag, trim (replace_first clean (''['' @ tag @ '']'') []))
      | None \<Rightarrow>
          (let rule = (case dictionary_title clean of
                         Some title \<Rightarrow> title
                       | None \<Rightarrow> ''General Violation'');
               rule = (if rule = ''General Violation''
                       then (case indexOf clean '':'' of
                               Some colonIndex \<Rightarrow>
                                 if 0 < colonIndex \<and> colonIndex < 50
                                    \<and> \<not> js_includes (take colonIndex clean) [CHR 0x0A]
                                    \<and> 3 < length (take colonIndex clean)
                                 then trim (take colonIndex clean)
                                 else rule
                             | None \<Rightarrow> rule)
                       else rule)
           in (rule, clean)))"

definition strip_trailing_period :: "string \<Rightarrow> string" where
  "strip_trailing_period d =
     (if endsWith d ''.'' then substring d 0 (length d - 1) else d)"

definition parse_part :: "nat \<Rightarrow> string \<Rightarrow> ParsedViolation" where
  "parse_part index part =
     (let (help, clean) = extract_help_url (strip_prefix_and_quotes part);
          (r, clean) = resolve_rule clean
      in \<lparr> viol_id = ''viol-'' @ show_nat index,
           rule = r,
           description = strip_trailing_period clean,
           helpUrl = help,
           raw = part \<rparr>)"

definition parseMessages :: "string \<Rightarrow> ParsedViolation list" where
  "parseMessages rawMessage =
     (if rawMessage = [] then []
      else map (\<lambda>(index, part). parse_part index part)
               (enumerate 0 (js_split rawMessage '' | '')))"

section \<open>JSON texts\<close>

text \<open>
  \<open>JSON.parse\<close> and \<open>JSON.stringify\<close> belong to the platform. They are modelled on the JSON
  grammar. A number is kept as its literal.
\<close>

datatype json =
    JNull
  | JBool bool
  | JNum string
  | JStr string
  | JArr "json list"
  | JObj "(string \<times> json) list"

datatype token =
    LBrace | RBrace | LBracket | RBracket | Comma | Colon
  | TString string | TNumber string | TTrue | TFalse | TNull

text \<open>
  A text that is not JSON is a \<open>Syntax\<close> error. \<open>Beyond\<close> marks a text with an escape
  \<open>\uXXXX\<close> of a code unit above 255, which the strings of this model do not hold.
\<close>

datatype parse_error = Syntax | Beyond

definition is_digit :: "char \<Rightarrow> bool" where
  "is_digit c = (48 \<le> (of_char c :: nat) \<and> (of_char c :: nat) \<le> 57)"

definition hex_value :: "char \<Rightarrow> nat option" where
  "hex_value c =
     (let n = (of_char c :: nat)
      in if 48 \<le> n \<and> n \<le> 57 then Some (n - 48)
         else if 97 \<le> n \<and> n \<le> 102 then Some (n - 87)
         else if 65 \<le> n \<and> n \<le> 70 then Some (n - 55)
         else None)"

definition hex4 :: "char \<Rightarrow> char \<Rightarrow> char \<Rightarrow> char \<Rightarrow> nat option" where
  "hex4 a b c d =
     (case (hex_value a, hex_value b, hex_value c, hex_value d) of
        (Some h1, Some h2, Some h3, Some h4) \<Rightarrow> Some (((h1 * 16 + h2) * 16 + h3) * 16 + h4)
      | _ \<Rightarrow> None)"

text \<open>The character a two-character escape stands for.\<close>

definition simple_escape :: "char \<Rightarrow> char option" where
  "simple_escape e =
     (if e = CHR 0x22 then Some (CHR 0x22)
      else if e = CHR 0x5C then Some (CHR 0x5C)
      else if e = CHR ''/'' then Some (CHR ''/'')
      else if e = CHR ''b'' then Some (CHR 0x08)
      else if e = CHR ''f'' then Some (CHR 0x0C)
      else if e = CHR ''n'' then Some (CHR 0x0A)
      else if e = CHR ''r'' then Some (CHR 0x0D)
      else if e = CHR ''t'' then Some (CHR 0x09)
      else None)"

text \<open>
  The body of a string literal, behind the opening quote: the string it denotes and the
  text behind the closing quote.
\<close>

fun lex_string :: "string \<Rightarrow> string \<Rightarrow> parse_error + (string \<times> string)" where
  "lex_string acc [] = Inl Syntax"
| "lex_string acc (c # cs) =
     (if c = CHR 0x22 then Inr (rev acc, cs)
      else if c = CHR 0x5C then
        (case cs of
           [] \<Rightarrow> Inl Syntax
         | e # es \<Rightarrow>
             if e = CHR ''u'' then
               (case es of
                  h1 # h2 # h3 # h4 # r \<Rightarrow>
                    (case hex4 h1 h2 h3 h4 of
                       None \<Rightarrow> Inl Syntax
                     | Some n \<Rightarrow> if n < 256 then lex_string (char_of n # acc) r else Inl Beyond)
                | _ \<Rightarrow> Inl Syntax)
             else
               (case simple_escape e of
                  None \<Rightarrow> Inl Syntax
                | Some x \<Rightarrow> lex_string (x # acc) es))
      else if (of_char c :: nat) < 32 then Inl Syntax
      else lex_string (c # acc) cs)"

text \<open>
  A number literal: an optional minus sign, an integer part without a leading zero, an
  optional fraction and an optional exponent.
\<close>

definition int_part :: "string \<Rightarrow> string option" where
  "int_part s =
     (case s of
        [] \<Rightarrow> None
      | c # r \<Rightarrow> if c = CHR ''0'' then Some r
                 else if is_digit c then Some (dropWhile is_digit r)
                 else None)"

definition digits1 :: "string \<Rightarrow> string option" where
  "digits1 s = (if takeWhile is_digit s = [] then None else Some (dropWhile is_digit s))"

definition frac_part :: "string \<Rightarrow> string option" where
  "frac_part s =
     (case s of
        [] \<Rightarrow> Some []
      | c # r \<Rightarrow> if c = CHR ''.'' then digits1 r else Some s)"

definition exp_part :: "string \<Rightarrow> string option" where
  "exp_part s =
     (case s of
        [] \<Rightarrow> Some []
      | c # r \<Rightarrow>
          if c = CHR ''e'' \<or> c = CHR ''E'' then
            (case r of
               [] \<Rightarrow> None
             | g # r' \<Rightarrow> if g = CHR ''+'' \<or> g = CHR ''-'' then digits1 r' else digits1 r)
          else Some s)"

definition valid_number :: "string \<Rightarrow> bool" where
  "valid_number s =
     (case int_part (case s of [] \<Rightarrow> [] | c # r \<Rightarrow> if c = CHR ''-'' then r else s) of
        None \<Rightarrow> False
      | Some s1 \<Rightarrow>
          (case frac_part s1 of
             None \<Rightarrow> False
           | Some s2 \<Rightarrow> exp_part s2 = Some []))"

definition is_number_char :: "char \<Rightarrow> bool" where
  "is_number_char c =
     (is_digit c \<or> c = CHR ''-'' \<or> c = CHR ''+'' \<or> c = CHR ''.'' \<or> c = CHR ''e'' \<or> c = CHR ''E'')"

definition json_ws :: "char \<Rightarrow> bool" where
  "json_ws c = (c = CHR 0x20 \<or> c = CHR 0x09 \<or> c = CHR 0x0A \<or> c = CHR 0x0D)"

definition punctuation :: "char \<Rightarrow> token option" where
  "punctuation c =
     (if c = CHR ''{'' then Some LBrace
      else if c = CHR ''}'' then Some RBrace
      else if c = CHR ''['' then Some LBracket
      else if c = CHR '']'' then Some RBracket
      else if c = CHR '','' then Some Comma
      else if c = CHR '':'' then Some Colon
      else None)"

definition cons_token :: "token \<Rightarrow> parse_error + token list \<Rightarrow> parse_error + token list" where
  "cons_token t r = (case r of Inl e \<Rightarrow> Inl e | Inr ts \<Rightarrow> Inr (t # ts))"

lemma lex_string_shorter: "lex_string acc cs = Inr (s, r) \<Longrightarrow> length r < length cs"
proof (induction "length cs" arbitrary: acc cs rule: less_induct)
  case less
  have IH: "length r < length ys" if "length ys < length cs" "lex_string acc' ys = Inr (s, r)"
    for acc' ys using less.hyps that by blast
  show ?case
  proof (cases cs)
    case Nil
    with less.prems show ?thesis by simp
  next
    case (Cons c cs')
    consider (quote) "c = CHR 0x22" | (escape) "c \<noteq> CHR 0x22" "c = CHR 0x5C"
      | (plain) "c \<noteq> CHR 0x22" "c \<noteq> CHR 0x5C" by blast
    then show ?thesis
    proof cases
      case quote
      with less.prems Cons show ?thesis by simp
    next
      case plain
      with less.prems Cons have "lex_string (c # acc) cs' = Inr (s, r)"
        by (simp split: if_splits)
      with IH [of cs' "c # acc"] Cons show ?thesis by simp
    next
      case escape
      show ?thesis
      proof (cases cs')
        case Nil
        with less.prems Cons escape show ?thesis by simp
      next
        case inner: (Cons e es)
        show ?thesis
        proof (cases "e = CHR ''u''")
          case False
          with less.prems Cons escape inner
          obtain x where "lex_string (x # acc) es = Inr (s, r)"
            by (auto split: option.splits)
          with IH [of es "x # acc"] Cons inner show ?thesis by simp
        next
          case True
          with less.prems Cons escape inner
          have "\<exists>h1 h2 h3 h4 r' x. es = h1 # h2 # h3 # h4 # r'
                  \<and> lex_string (x # acc) r' = Inr (s, r)"
            by (auto split: list.splits option.splits if_splits)
          then obtain h1 h2 h3 h4 r' x where "es = h1 # h2 # h3 # h4 # r'"
            and "lex_string (x # acc) r' = Inr (s, r)" by blast
          with IH [of r' "x # acc"] Cons inner show ?thesis by simp
        qed
      qed
    qed
  qed
qed

function lex :: "string \<Rightarrow> parse_error + token list" where
  "lex [] = Inr []"
| "lex (c # cs) =
     (if json_ws c then lex cs
      else if punctuation c \<noteq> None then cons_token (the (punctuation c)) (lex cs)
      else if c = CHR 0x22 then
        (case lex_string [] cs of
           Inl e \<Rightarrow> Inl e
         | Inr (s, r) \<Rightarrow> cons_token (TString s) (lex r))
      else if is_number_char c then
        (if valid_number (c # takeWhile is_number_char cs)
         then cons_token (TNumber (c # takeWhile is_number_char cs))
                (lex (dropWhile is_number_char cs))
         else Inl Syntax)
      else if startsWith (c # cs) ''true'' then cons_token TTrue (lex (drop 3 cs))
      else if startsWith (c # cs) ''false'' then cons_token TFalse (lex (drop 4 cs))
      else if startsWith (c # cs) ''null'' then cons_token TNull (lex (drop 3 cs))
      else Inl Syntax)"
  by pat_completeness auto
termination
  by (relation "measure length")
     (auto dest: lex_string_shorter simp: less_Suc_eq_le length_dropWhile_le)

declare lex.simps [simp del]

text \<open>
  The values are built from the tokens by a stack of the arrays and objects that are
  open: an array with its elements so far, an object with its members so far and the key
  that waits for its value, both in reverse.
\<close>

datatype frame = FArr "json list" | FObj "(string \<times> json) list" "string option"

datatype mode =
    WantValue | WantValueOrClose | WantKeyOrClose | WantKey | WantColon | AfterValue
  | Finished json

fun push_value :: "json \<Rightarrow> frame list \<Rightarrow> (frame list \<times> mode) option" where
  "push_value v [] = Some ([], Finished v)"
| "push_value v (FArr xs # st) = Some (FArr (v # xs) # st, AfterValue)"
| "push_value v (FObj ms (Some k) # st) = Some (FObj ((k, v) # ms) None # st, AfterValue)"
| "push_value v (FObj ms None # st) = None"

fun scalar :: "token \<Rightarrow> json option" where
  "scalar (TString s) = Some (JStr s)"
| "scalar (TNumber n) = Some (JNum n)"
| "scalar TTrue = Some (JBool True)"
| "scalar TFalse = Some (JBool False)"
| "scalar TNull = Some JNull"
| "scalar t = None"

definition open_value :: "bool \<Rightarrow> frame list \<Rightarrow> token \<Rightarrow> (frame list \<times> mode) option" where
  "open_value may_close st t =
     (case scalar t of
        Some v \<Rightarrow> push_value v st
      | None \<Rightarrow>
          if t = LBracket then Some (FArr [] # st, WantValueOrClose)
          else if t = LBrace then Some (FObj [] None # st, WantKeyOrClose)
          else if t = RBracket \<and> may_close then
            (case st of FArr [] # st' \<Rightarrow> push_value (JArr []) st' | _ \<Rightarrow> None)
          else None)"

definition open_key :: "bool \<Rightarrow> frame list \<Rightarrow> token \<Rightarrow> (frame list \<times> mode) option" where
  "open_key may_close st t =
     (case st of
        FObj ms None # st' \<Rightarrow>
          (case t of
             TString k \<Rightarrow> Some (FObj ms (Some k) # st', WantColon)
           | RBrace \<Rightarrow> if may_close then push_value (JObj (rev ms)) st' else None
           | _ \<Rightarrow> None)
      | _ \<Rightarrow> None)"

definition after_value :: "frame list \<Rightarrow> token \<Rightarrow> (frame list \<times> mode) option" where
  "after_value st t =
     (case st of
        FArr xs # st' \<Rightarrow>
          if t = Comma then Some (st, WantValue)
          else if t = RBracket then push_value (JArr (rev xs)) st'
          else None
      | FObj ms None # st' \<Rightarrow>
          if t = Comma then Some (st, WantKey)
          else if t = RBrace then push_value (JObj (rev ms)) st'
          else None
      | _ \<Rightarrow> None)"

fun step :: "frame list \<times> mode \<Rightarrow> token \<Rightarrow> (frame list \<times> mode) option" where
  "step (st, WantValue) t = open_value False st t"
| "step (st, WantValueOrClose) t = open_value True st t"
| "step (st, WantKeyOrClose) t = open_key True st t"
| "step (st, WantKey) t = open_key False st t"
| "step (st, WantColon) t = (if t = Colon then Some (st, WantValue) else None)"
| "step (st, AfterValue) t = after_value st t"
| "step (st, Finished v) t = None"

fun run :: "frame list \<times> mode \<Rightarrow> token list \<Rightarrow> (frame list \<times> mode) option" where
  "run a [] = Some a"
| "run a (t # ts) = (case step a t of None \<Rightarrow> None | Some b \<Rightarrow> run b ts)"

definition parse_tokens :: "token list \<Rightarrow> json option" where
  "parse_tokens ts =
     (case run ([], WantValue) ts of
        Some ([], Finished v) \<Rightarrow> Some v
      | _ \<Rightarrow> None)"

definition JSON_parse :: "string \<Rightarrow> parse_error + json" where
  "JSON_parse s =
     (case lex s of
        Inl e \<Rightarrow> Inl e
      | Inr ts \<Rightarrow> (case parse_tokens ts of None \<Rightarrow> Inl Syntax | Some v \<Rightarrow> Inr v))"

text \<open>\<open>JSON.stringify\<close> of an array of strings.\<close>

definition hex_digit :: "nat \<Rightarrow> char" where
  "hex_digit d = (if d < 10 then char_of (48 + d) else char_of (87 + d))"

definition escape_char :: "char \<Rightarrow> string" where
  "escape_char c =
     (if c = CHR 0x22 then [CHR 0x5C, CHR 0x22]
      else if c = CHR 0x5C then [CHR 0x5C, CHR 0x5C]
      else if c = CHR 0x08 then [CHR 0x5C, CHR ''b'']
      else if c = CHR 0x0C then [CHR 0x5C, CHR ''f'']
      else if c = CHR 0x0A then [CHR 0x5C, CHR ''n'']
      else if c = CHR 0x0D then [CHR 0x5C, CHR ''r'']
      else if c = CHR 0x09 then [CHR 0x5C, CHR ''t'']
      else if (of_char c :: nat) < 32 then
        [CHR 0x5C, CHR ''u'', CHR ''0'', CHR ''0'',
         hex_digit ((of_char c :: nat) div 16), hex_digit ((of_char c :: nat) mod 16)]
      else [c])"

definition quote_string :: "string \<Rightarrow> string" where
  "quote_string s = CHR 0x22 # concat (map escape_char s) @ [CHR 0x22]"

definition stringify_ids :: "string list \<Rightarrow> string" where
  "stringify_ids ids = ''['' @ join (map quote_string ids) '','' @ '']''"

section \<open>Ignore-state store\<close>

type_synonym storage = "string \<rightharpoonup> string"

definition STORAGE_KEY :: string where
  "STORAGE_KEY = ''equalify_ignored_ids''"

text \<open>
  \<open>localStorage\<close> maps keys to strings. \<open>getIgnoredIds\<close> is declared to return \<open>string[]\<close>,
  and \<open>JSON.parse\<close> does not check that. The model follows the declaration: a stored text
  that is JSON but not an array of strings, or that has an escape beyond the strings of
  the model, is \<open>OutsideModel\<close>, and nothing is said about it. \<open>SyntaxError\<close> is the exception
  that \<open>JSON.parse\<close> throws. The storage is taken to be large enough for every write.
\<close>

datatype store_error = SyntaxError | OutsideModel

fun the_strings :: "json list \<Rightarrow> string list option" where
  "the_strings [] = Some []"
| "the_strings (JStr s # vs) = map_option ((#) s) (the_strings vs)"
| "the_strings (v # vs) = None"

fun string_array :: "json \<Rightarrow> string list option" where
  "string_array (JArr vs) = the_strings vs"
| "string_array v = None"

definition getIgnoredIds :: "storage \<Rightarrow> store_error + string list" where
  "getIgnoredIds st =
     (case st STORAGE_KEY of
        None \<Rightarrow> Inr []
      | Some stored \<Rightarrow>
          if stored = [] then Inr []
          else (case JSON_parse stored of
                  Inl Syntax \<Rightarrow> Inl SyntaxError
                | Inl Beyond \<Rightarrow> Inl OutsideModel
                | Inr v \<Rightarrow> (case string_array v of
                             None \<Rightarrow> Inl OutsideModel
                           | Some ids \<Rightarrow> Inr ids)))"

definition toggleIgnoreId :: "string \<Rightarrow> storage \<Rightarrow> store_error + (string list \<times> storage)" where
  "toggleIgnoreId ident st =
     (case getIgnoredIds st of
        Inl e \<Rightarrow> Inl e
      | Inr current \<Rightarrow>
          (let newIds = (if ident \<in> set current then filter (\<lambda>i. i \<noteq> ident) current
                         else current @ [ident])
           in Inr (newIds, st(STORAGE_KEY \<mapsto> stringify_ids newIds))))"

text \<open>
  A \<open>Set\<close> of strings keeps its elements in the order of insertion: it is the list of its
  elements without repetition. \<open>new Set(xs)\<close> adds the elements of \<open>xs\<close> one by one.
\<close>

definition set_add :: "string \<Rightarrow> string list \<Rightarrow> string list" where
  "set_add x s = (if x \<in> set s then s else s @ [x])"

definition set_delete :: "string \<Rightarrow> string list \<Rightarrow> string list" where
  "set_delete x s = filter (\<lambda>y. y \<noteq> x) s"

definition new_Set :: "string list \<Rightarrow> string list" where
  "new_Set xs = foldl (\<lambda>s x. set_add x s) [] xs"

definition bulkIgnoreIds ::
  "string list \<Rightarrow> bool \<Rightarrow> storage \<Rightarrow> store_error + (string list \<times> storage)" where
  "bulkIgnoreIds ids shouldIgnore st =
     (case getIgnoredIds st of
        Inl e \<Rightarrow> Inl e
      | Inr stored \<Rightarrow>
          (let current = foldl (\<lambda>s ident. if shouldIgnore then set_add ident s
                                            else set_delete ident s)
                           (new_Set stored) ids;
               newIds = current
           in Inr (newIds, st(STORAGE_KEY \<mapsto> stringify_ids newIds))))"

text \<open>The tokens of the text that \<open>stringify_ids\<close> writes.\<close>

definition id_tokens :: "string list \<Rightarrow> token list" where
  "id_tokens ids =
     (case ids of
        [] \<Rightarrow> []
      | x # xs \<Rightarrow> TString x # concat (map (\<lambda>y. [Comma, TString y]) xs))"

section \<open>Dataset loader\<close>

text \<open>
  The loader reads the first response at the type the source declares for it,
  \<open>ApiResponse\<close>: a field that may be missing is an option. The fields that the source
  reads through \<open>any\<close>, the six fallback keys, are JSON values under \<open>other_fields\<close>, and so
  are the records themselves. The counts of \<open>Pagination\<close> are integers. The responses to
  the further pages come from the same endpoint and are read at the same type.
\<close>

record Pagination =
  totalPages :: int
  pageSize :: int
  page :: int
  totalCount :: int

record ApiResponse =
  audit_name :: "string option"
  pagination :: "Pagination option"
  blockers :: "json list option"
  scan_date :: "json option"
  other_fields :: "string \<Rightarrow> json option"

text \<open>
  The \<open>Dataset\<close> that the loader returns, its fields \<open>id\<close>, \<open>url\<close>, \<open>name\<close>, \<open>blockers\<close> and
  \<open>timestamp\<close> under the prefix \<open>ds\<close>. Its optional fields \<open>color\<close> and \<open>index\<close> are set by the
  caller only.
\<close>

record Dataset =
  ds_id :: string
  ds_url :: string
  ds_name :: string
  ds_blockers :: "json list"
  ds_timestamp :: nat

text \<open>
  A \<open>URL\<close> object with its components. \<open>searchParams\<close> is the list of the name-value pairs:
  \<open>get\<close> reads the first pair of a name, \<open>set\<close> changes the first pair of the name and
  removes the others, or appends a pair.
\<close>

record URL =
  protocol :: string
  username :: string
  password :: string
  hostname :: string
  port :: string
  pathname :: string
  searchParams :: "(string \<times> string) list"
  hash :: string

definition params_get :: "(string \<times> string) list \<Rightarrow> string \<Rightarrow> string option" where
  "params_get ps name = map_of ps name"

fun params_set :: "(string \<times> string) list \<Rightarrow> string \<Rightarrow> string \<Rightarrow> (string \<times> string) list" where
  "params_set [] name v = [(name, v)]"
| "params_set ((k, w) # ps) name v =
     (if k = name then (name, v) # filter (\<lambda>(k', w'). k' \<noteq> name) ps
      else (k, w) # params_set ps name v)"

text \<open>
  The platform: the parser and the serializer of URLs, \<open>fetch\<close>, the clock, the generator
  of the local id, and what JavaScript does with a number (whether it is truthy, and its
  text). \<open>fetch\<close>, the clock and the generator may depend on the events so far, the
  requests and the retries. A request is rejected, or it is answered with a status and a
  body, which is \<open>None\<close> when it is not JSON.
\<close>

record Response =
  ok :: bool
  status :: nat
  statusText :: string
  body :: "ApiResponse option"

datatype fetch_result = Rejects | Responds Response

datatype event = Fetch string | Retry string

record platform =
  url_parse :: "string \<Rightarrow> URL option"
  url_href :: "URL \<Rightarrow> string"
  fetch :: "event list \<Rightarrow> string \<Rightarrow> fetch_result"
  date_now :: "event list \<Rightarrow> nat"
  date_iso :: "event list \<Rightarrow> string"
  local_id :: "event list \<Rightarrow> string"
  number_truthy :: "string \<Rightarrow> bool"
  number_text :: "string \<Rightarrow> string"

text \<open>
  What \<open>loadDataset\<close> rejects with: an \<open>Error\<close> with its message, the rejection of \<open>fetch\<close>,
  the rejection of \<open>response.json()\<close>, and the \<open>TypeError\<close> of a property read on \<open>null\<close>.
\<close>

datatype load_error = Error string | FetchRejected | JsonRejected | TypeError

text \<open>
  JavaScript on JSON values: a property of a value (of the properties the source reads,
  only an object has any, and the last member of a name counts), whether a value is
  truthy, and \<open>a || d\<close>.
\<close>

definition get_prop :: "json \<Rightarrow> string \<Rightarrow> json option" where
  "get_prop v key = (case v of JObj ms \<Rightarrow> map_of (rev ms) key | _ \<Rightarrow> None)"

fun truthy :: "(string \<Rightarrow> bool) \<Rightarrow> json \<Rightarrow> bool" where
  "truthy nz JNull = False"
| "truthy nz (JBool b) = b"
| "truthy nz (JNum n) = nz n"
| "truthy nz (JStr s) = (s \<noteq> [])"
| "truthy nz (JArr vs) = True"
| "truthy nz (JObj ms) = True"

definition or_default :: "(string \<Rightarrow> bool) \<Rightarrow> json option \<Rightarrow> json \<Rightarrow> json" where
  "or_default nz a d = (case a of Some v \<Rightarrow> if truthy nz v then v else d | None \<Rightarrow> d)"

text \<open>
  The text of a value in a template literal. An object that comes from JSON has the text
  \<open>[object Object]\<close>, unless it has a member \<open>toString\<close>: that member is no function, the
  conversion finds no text for the object and throws a \<open>TypeError\<close>, which is \<open>None\<close> here.
  An array has the texts of its elements, joined by commas, with the empty text for
  \<open>null\<close>, and it throws when one of its elements does.
\<close>

fun to_text :: "(string \<Rightarrow> string) \<Rightarrow> json \<Rightarrow> string option"
  and to_texts :: "(string \<Rightarrow> string) \<Rightarrow> json list \<Rightarrow> string list option" where
  "to_text nt JNull = Some ''null''"
| "to_text nt (JBool b) = Some (if b then ''true'' else ''false'')"
| "to_text nt (JNum n) = Some (nt n)"
| "to_text nt (JStr s) = Some s"
| "to_text nt (JArr vs) = map_option (\<lambda>ts. join ts '','') (to_texts nt vs)"
| "to_text nt (JObj ms) =
     (if ''toString'' \<in> set (map fst ms) then None else Some ''[object Object]'')"
| "to_texts nt [] = Some []"
| "to_texts nt (v # vs) =
     (case (if v = JNull then Some [] else to_text nt v) of
        None \<Rightarrow> None
      | Some t \<Rightarrow> map_option ((#) t) (to_texts nt vs))"

text \<open>
  \<open>extractFromList\<close> maps the items of a fallback list to records. An item that is \<open>null\<close>
  throws, and so does an item without a truthy \<open>content\<close> whose \<open>Type\<close> is truthy and has no
  text; the whole call throws with it.
\<close>

definition type_text :: "platform \<Rightarrow> json \<Rightarrow> load_error + json" where
  "type_text P item =
     (case get_prop item ''Type'' of
        None \<Rightarrow> Inr (JStr [])
      | Some t \<Rightarrow>
          if truthy (number_truthy P) t then
            (case to_text (number_text P) t of
               None \<Rightarrow> Inl TypeError
             | Some s \<Rightarrow> Inr (JStr (''Type: '' @ s)))
          else Inr (JStr []))"

definition item_content :: "platform \<Rightarrow> json \<Rightarrow> load_error + json" where
  "item_content P item =
     (case get_prop item ''content'' of
        None \<Rightarrow> type_text P item
      | Some c \<Rightarrow> if truthy (number_truthy P) c then Inr c else type_text P item)"

definition extract_item ::
  "platform \<Rightarrow> event list \<Rightarrow> json option \<Rightarrow> nat \<Rightarrow> json \<Rightarrow> load_error + json" where
  "extract_item P tr scan index item =
     (if item = JNull then Inl TypeError
      else
        (let nz = number_truthy P;
             Type = get_prop item ''Type''
         in case item_content P item of
              Inl e \<Rightarrow> Inl e
            | Inr content \<Rightarrow>
                Inr (JObj
                  [(''id'', or_default nz (get_prop item ''id'')
                       (JStr (''res_'' @ show_nat index @ ''_'' @ show_nat (date_now P tr)))),
                   (''url'', or_default nz (get_prop item ''URL'')
                       (or_default nz (get_prop item ''url'') (JStr []))),
                   (''messages'',
                      (case get_prop item ''messages'' of
                         Some (JArr ms) \<Rightarrow> JArr ms
                       | m \<Rightarrow> JArr [or_default nz m (or_default nz Type (JStr ''Resource''))])),
                   (''created_at'', or_default nz scan
                       (or_default nz (get_prop item ''created_at'') (JStr (date_iso P tr)))),
                   (''content'', content),
                   (''categories'', or_default nz (get_prop item ''categories'') (JArr [])),
                   (''tags'', or_default nz (get_prop item ''tags'') (JArr []))])))"

fun extract_from ::
  "platform \<Rightarrow> event list \<Rightarrow> json option \<Rightarrow> nat \<Rightarrow> json list \<Rightarrow> load_error + json list" where
  "extract_from P tr scan index [] = Inr []"
| "extract_from P tr scan index (item # items) =
     (case extract_item P tr scan index item of
        Inl e \<Rightarrow> Inl e
      | Inr b \<Rightarrow>
          (case extract_from P tr scan (Suc index) items of
             Inl e \<Rightarrow> Inl e
           | Inr bs \<Rightarrow> Inr (b # bs)))"

definition extractFromList ::
  "platform \<Rightarrow> event list \<Rightarrow> json option \<Rightarrow> json list \<Rightarrow> load_error + json list" where
  "extractFromList P tr scan list = extract_from P tr scan 0 list"

text \<open>
  The records of a response: its blockers, or, when there are none, the records extracted
  from the first fallback key that holds a non-empty array.
\<close>

definition fallbackKeys :: "string list" where
  "fallbackKeys = [''auditTable'', ''audit_table'', ''results'', ''data'', ''items'', ''records'']"

fun first_list :: "(string \<Rightarrow> json option) \<Rightarrow> string list \<Rightarrow> json list option" where
  "first_list f [] = None"
| "first_list f (key # keys) =
     (case f key of
        Some (JArr (x # xs)) \<Rightarrow> Some (x # xs)
      | _ \<Rightarrow> first_list f keys)"

definition records_of ::
  "platform \<Rightarrow> event list \<Rightarrow> json option \<Rightarrow> ApiResponse \<Rightarrow> load_error + json list" where
  "records_of P tr scan resp =
     (case blockers resp of
        Some (b # bs) \<Rightarrow> Inr (b # bs)
      | _ \<Rightarrow>
          (case first_list (other_fields resp) fallbackKeys of
             Some list \<Rightarrow> extractFromList P tr scan list
           | None \<Rightarrow> Inr []))"

definition is_public_api :: "URL \<Rightarrow> bool" where
  "is_public_api u =
     (js_includes (hostname u) ''equalifyapp.com'' \<and> js_includes (pathname u) ''/public/'')"

text \<open>
  The further pages, fetched one after the other. A page that is rejected, is not a success,
  has no JSON body or throws during the extraction is skipped.
\<close>

definition fetch_page ::
  "platform \<Rightarrow> URL \<Rightarrow> json option \<Rightarrow> json list \<times> event list \<Rightarrow> int \<Rightarrow> json list \<times> event list" where
  "fetch_page P u scan acc p =
     (let (found, tr) = acc;
          pageUrl = url_href P (u\<lparr>searchParams := params_set (searchParams u) ''page'' (show_nat (nat p))\<rparr>);
          tr' = tr @ [Fetch pageUrl]
      in case fetch P tr pageUrl of
           Rejects \<Rightarrow> (found, tr')
         | Responds r \<Rightarrow>
             if ok r then
               (case body r of
                  None \<Rightarrow> (found, tr')
                | Some pData \<Rightarrow>
                    (case records_of P tr' scan pData of
                       Inl e \<Rightarrow> (found, tr')
                     | Inr rs \<Rightarrow> (found @ rs, tr')))
             else (found, tr'))"

definition all_pages ::
  "platform \<Rightarrow> URL \<Rightarrow> ApiResponse \<Rightarrow> json list \<times> event list \<Rightarrow> json list \<times> event list" where
  "all_pages P u data acc =
     (case pagination data of
        Some pg \<Rightarrow>
          if is_public_api u \<and> 1 < totalPages pg \<and> page pg = 1
          then foldl (fetch_page P u (scan_date data)) acc [2..totalPages pg]
          else acc
      | None \<Rightarrow> acc)"

text \<open>
  The retry: no record, a \<open>totalCount\<close> above 0, the public API, and a \<open>pageSize\<close> parameter
  other than 100. The retry goes to the URL with \<open>pageSize\<close> set to 100 and \<open>page\<close> set to 1.
\<close>

definition retry_needed :: "URL \<Rightarrow> ApiResponse \<Rightarrow> json list \<Rightarrow> bool" where
  "retry_needed u data found =
     (found = []
      \<and> (case pagination data of Some pg \<Rightarrow> 0 < totalCount pg | None \<Rightarrow> False)
      \<and> is_public_api u
      \<and> params_get (searchParams u) ''pageSize'' \<noteq> Some ''100'')"

definition retry_target :: "URL \<Rightarrow> URL" where
  "retry_target u =
     u\<lparr>searchParams := params_set (params_set (searchParams u) ''pageSize'' ''100'') ''page'' ''1''\<rparr>"

text \<open>The regular expression \<open>\d{4}-\d{2}-\d{2}\<close>, at the start of a string and anywhere.\<close>

definition date_here :: "string \<Rightarrow> string option" where
  "date_here s =
     (if 10 \<le> length s
         \<and> list_all is_digit (take 4 s) \<and> s ! 4 = CHR ''-''
         \<and> list_all is_digit (take 2 (drop 5 s)) \<and> s ! 7 = CHR ''-''
         \<and> list_all is_digit (take 2 (drop 8 s))
      then Some (take 10 s) else None)"

fun match_date :: "string \<Rightarrow> string option" where
  "match_date [] = None"
| "match_date (c # cs) =
     (case date_here (c # cs) of Some d \<Rightarrow> Some d | None \<Rightarrow> match_date cs)"

text \<open>\<open>toUpperCase\<close> and \<open>toLowerCase\<close>, on the letters of ASCII.\<close>

definition to_upper :: "char \<Rightarrow> char" where
  "to_upper c =
     (if 97 \<le> (of_char c :: nat) \<and> (of_char c :: nat) \<le> 122
      then char_of ((of_char c :: nat) - 32) else c)"

definition to_lower :: "char \<Rightarrow> char" where
  "to_lower c =
     (if 65 \<le> (of_char c :: nat) \<and> (of_char c :: nat) \<le> 90
      then char_of ((of_char c :: nat) + 32) else c)"

definition title_case :: "string \<Rightarrow> string" where
  "title_case w = (case w of [] \<Rightarrow> [] | c # cs \<Rightarrow> to_upper c # map to_lower cs)"

text \<open>\<open>s.split(/[-_]/)\<close>: a cut at every character of the class.\<close>

fun split_where :: "(char \<Rightarrow> bool) \<Rightarrow> string \<Rightarrow> string list" where
  "split_where sep [] = [[]]"
| "split_where sep (c # cs) =
     (if sep c then [] # split_where sep cs
      else (case split_where sep cs of
              [] \<Rightarrow> [[c]]
            | x # xs \<Rightarrow> (c # x) # xs))"

text \<open>
  \<open>s.replace(/\.[^/.]+$/, "")\<close>: the text behind the last dot goes, with the dot, when it is
  not empty and has no slash.
\<close>

definition strip_extension :: "string \<Rightarrow> string" where
  "strip_extension s =
     (let ext = takeWhile (\<lambda>c. c \<noteq> CHR ''.'' \<and> c \<noteq> CHR ''/'') (rev s);
          front = dropWhile (\<lambda>c. c \<noteq> CHR ''.'' \<and> c \<noteq> CHR ''/'') (rev s)
      in if ext \<noteq> [] \<and> (case front of [] \<Rightarrow> False | c # r \<Rightarrow> c = CHR ''.'')
         then rev (tl front) else s)"

text \<open>The display name derived from the audit name, or from the URL.\<close>

definition humanize :: "string \<Rightarrow> string" where
  "humanize baseForName =
     join (map title_case
            (filter (\<lambda>w. w \<noteq> [])
               (split_where (\<lambda>c. c = CHR ''-'' \<or> c = CHR ''_'') baseForName))) '' ''"

definition dataset_name :: "string \<Rightarrow> URL \<Rightarrow> string option \<Rightarrow> string" where
  "dataset_name url u audit =
     (let extractedDate = match_date url;
          datasetName = (case audit of Some n \<Rightarrow> n | None \<Rightarrow> []);
          isSlug = (js_includes datasetName ''_''
                    \<or> js_includes datasetName ''-'' \<and> \<not> js_includes datasetName '' '');
          datasetName =
            (if datasetName = [] \<or> datasetName = ''Untitled Audit'' \<or> isSlug then
               (let baseForName =
                      (if datasetName = [] \<or> isSlug
                       then strip_extension (last (js_split (pathname u) ''/''))
                       else datasetName)
                in if baseForName \<noteq> [] then
                     humanize (case extractedDate of
                                 Some d \<Rightarrow> replace_first baseForName d []
                               | None \<Rightarrow> baseForName)
                   else datasetName)
             else datasetName);
          datasetName = (if datasetName = [] then ''Untitled Audit'' else datasetName)
      in case extractedDate of
           Some d \<Rightarrow> if \<not> js_includes datasetName d then datasetName @ '' ('' @ d @ '')''
                     else datasetName
         | None \<Rightarrow> datasetName)"

text \<open>
  One pass through the body of \<open>loadDataset\<close>: it rejects, or asks for the retry with the
  rewritten URL, or resolves.
\<close>

datatype outcome = Rejected load_error | Retrying string | Resolved Dataset

definition finish ::
  "platform \<Rightarrow> string \<Rightarrow> URL \<Rightarrow> ApiResponse \<Rightarrow> json list \<times> event list \<Rightarrow> outcome \<times> event list" where
  "finish P url u data acc =
     (let (found, tr) = acc
      in if retry_needed u data found
         then (Retrying (url_href P (retry_target u)), tr)
         else (Resolved \<lparr> ds_id = local_id P tr,
                           ds_url = url,
                           ds_name = dataset_name url u (audit_name data),
                           ds_blockers = found,
                           ds_timestamp = date_now P tr \<rparr>, tr))"

definition attempt :: "platform \<Rightarrow> event list \<Rightarrow> string \<Rightarrow> outcome \<times> event list" where
  "attempt P tr url =
     (case url_parse P url of
        None \<Rightarrow> (Rejected (Error ''The provided URL is not valid.''), tr)
      | Some u \<Rightarrow>
          (case fetch P tr url of
             Rejects \<Rightarrow> (Rejected FetchRejected, tr @ [Fetch url])
           | Responds r \<Rightarrow>
               if \<not> ok r then
                 (Rejected (Error (''Failed to fetch data: '' @ statusText r
                                     @ '' ('' @ show_nat (status r) @ '')'')),
                  tr @ [Fetch url])
               else
                 (case body r of
                    None \<Rightarrow> (Rejected JsonRejected, tr @ [Fetch url])
                  | Some data \<Rightarrow>
                      (case records_of P (tr @ [Fetch url]) (scan_date data) data of
                         Inl e \<Rightarrow> (Rejected e, tr @ [Fetch url])
                       | Inr first \<Rightarrow>
                           finish P url u data
                             (all_pages P u data (first, tr @ [Fetch url]))))))"

text \<open>
  \<open>loadDataset\<close> calls itself for the retry. The result is \<open>None\<close> when the calls never end;
  otherwise it is what the load rejects with or resolves to, and the events.
\<close>

partial_function (option) loadDataset ::
  "platform \<Rightarrow> event list \<Rightarrow> string \<Rightarrow> ((load_error + Dataset) \<times> event list) option" where
  "loadDataset P tr url =
     (case attempt P tr url of
        (Rejected e, tr') \<Rightarrow> Some (Inl e, tr')
      | (Retrying retryUrl, tr') \<Rightarrow> loadDataset P (tr' @ [Retry retryUrl]) retryUrl
      | (Resolved d, tr') \<Rightarrow> Some (Inr d, tr'))"

text \<open>
  The repository holds a second \<open>loadDataset\<close>, in \<open>src/services/DataManager.ts\<close>, which has
  no fallback, no further pages and no retry: it rejects a response that has no blockers
  and a \<open>totalCount\<close> above 0.
\<close>

definition loadDataset_DataManager ::
  "platform \<Rightarrow> event list \<Rightarrow> string \<Rightarrow> (load_error + Dataset) \<times> event list" where
  "loadDataset_DataManager P tr url =
     (case url_parse P url of
        None \<Rightarrow> (Inl (Error ''The provided URL is not valid.''), tr)
      | Some parsedUrl \<Rightarrow>
          (case fetch P tr url of
             Rejects \<Rightarrow> (Inl FetchRejected, tr @ [Fetch url])
           | Responds r \<Rightarrow>
               if \<not> ok r then
                 (Inl (Error (''Failed to fetch data: '' @ statusText r
                                @ '' ('' @ show_nat (status r) @ '')'')),
                  tr @ [Fetch url])
               else
                 (case body r of
                    None \<Rightarrow> (Inl JsonRejected, tr @ [Fetch url])
                  | Some data \<Rightarrow>
                      if (case blockers data of None \<Rightarrow> True | Some found \<Rightarrow> found = [])
                         \<and> (case pagination data of
                               Some pg \<Rightarrow> 0 < totalCount pg
                             | None \<Rightarrow> False)
                      then (Inl (Error ''The API returned no data for this page size. Please try reducing the pageSize in the URL (e.g., to 100).''),
                            tr @ [Fetch url])
                      else (Inr \<lparr> ds_id = local_id P (tr @ [Fetch url]),
                                   ds_url = url,
                                   ds_name = (case audit_name data of
                                                None \<Rightarrow> ''Untitled Audit''
                                              | Some n \<Rightarrow> if n = [] then ''Untitled Audit'' else n),
                                   ds_blockers = (case blockers data of
                                                    None \<Rightarrow> []
                                                  | Some found \<Rightarrow> found),
                                   ds_timestamp = date_now P (tr @ [Fetch url]) \<rparr>,
                            tr @ [Fetch url]))))"

text \<open>The events that are retries.\<close>

definition is_retry :: "event \<Rightarrow> bool" where
  "is_retry e = (case e of Retry r \<Rightarrow> True | Fetch w \<Rightarrow> False)"

text \<open>The body of the response to the first request, when it is a success with a JSON body.\<close>

definition responds_with :: "platform \<Rightarrow> event list \<Rightarrow> string \<Rightarrow> ApiResponse option" where
  "responds_with P tr url =
     (case fetch P tr url of
        Rejects \<Rightarrow> None
      | Responds r \<Rightarrow> if ok r then body r else None)"

text \<open>The records extracted from the first response and from the further pages.\<close>

definition extracted ::
  "platform \<Rightarrow> event list \<Rightarrow> string \<Rightarrow> URL \<Rightarrow> ApiResponse \<Rightarrow> load_error + json list" where
  "extracted P tr url u data =
     (case records_of P (tr @ [Fetch url]) (scan_date data) data of
        Inl e \<Rightarrow> Inl e
      | Inr first \<Rightarrow> Inr (fst (all_pages P u data (first, tr @ [Fetch url]))))"




section \<open>Example platforms\<close>

text \<open>
  A serializer for URLs without credentials and port whose parts need no escaping, and
  platforms that know a few URLs and answer each with a fixed response.
\<close>

definition plain_href :: "URL \<Rightarrow> string" where
  "plain_href u =
     protocol u @ ''//'' @ hostname u @ pathname u
       @ (if searchParams u = [] then []
          else ''?'' @ join (map (\<lambda>(k, v). k @ ''='' @ v) (searchParams u)) ''&'')
       @ hash u"

definition table_platform ::
  "(string \<times> URL) list \<Rightarrow> (string \<times> ApiResponse) list \<Rightarrow> platform" where
  "table_platform urls responses =
     \<lparr> url_parse = map_of urls,
       url_href = plain_href,
       fetch = (\<lambda>tr w. case map_of responses w of
                          None \<Rightarrow> Rejects
                        | Some data \<Rightarrow> Responds \<lparr> ok = True, status = 200, statusText = ''OK'',
                                                   body = Some data \<rparr>),
       date_now = (\<lambda>tr. 0),
       date_iso = (\<lambda>tr. ''1970-01-01T00:00:00.000Z''),
       local_id = (\<lambda>tr. ''ds_0''),
       number_truthy = (\<lambda>n. True),
       number_text = (\<lambda>n. n) \<rparr>"

text \<open>A URL of the public API with a page size of 500, and its retry URL.\<close>

definition api_url :: string where
  "api_url = ''https://api.equalifyapp.com/public/audits/1?pageSize=500''"

definition api_URL :: URL where
  "api_URL = \<lparr> protocol = ''https:'', username = [], password = [],
               hostname = ''api.equalifyapp.com'', port = [],
               pathname = ''/public/audits/1'',
               searchParams = [(''pageSize'', ''500'')], hash = [] \<rparr>"

definition retry_url :: string where
  "retry_url = ''https://api.equalifyapp.com/public/audits/1?pageSize=100&page=1''"

definition page_of :: "int \<Rightarrow> json list \<Rightarrow> ApiResponse" where
  "page_of n found =
     \<lparr> audit_name = Some ''Site audit'',
       pagination = Some \<lparr> totalPages = 1, pageSize = n, page = 1, totalCount = 2 \<rparr>,
       blockers = Some found,
       scan_date = None,
       other_fields = (\<lambda>key. None) \<rparr>"

definition two_blockers :: "json list" where
  "two_blockers = [JObj [(''id'', JStr ''b1'')], JObj [(''id'', JStr ''b2'')]]"

definition retry_fills :: platform where
  "retry_fills =
     table_platform [(api_url, api_URL), (retry_url, retry_target api_URL)]
       [(api_url, page_of 500 []), (retry_url, page_of 100 two_blockers)]"

definition retry_stays_empty :: platform where
  "retry_stays_empty =
     table_platform [(api_url, api_URL), (retry_url, retry_target api_URL)]
       [(api_url, page_of 500 []), (retry_url, page_of 100 [])]"


text \<open>A URL of a report file, and responses to it.\<close>

definition file_url :: string where
  "file_url = ''https://example.com/reports/my_site_audit_2024-05-01.json''"

definition file_URL :: URL where
  "file_URL = \<lparr> protocol = ''https:'', username = [], password = [],
                hostname = ''example.com'', port = [],
                pathname = ''/reports/my_site_audit_2024-05-01.json'',
                searchParams = [], hash = [] \<rparr>"

definition unnamed_response :: ApiResponse where
  "unnamed_response =
     \<lparr> audit_name = None, pagination = None,
       blockers = Some [JObj [(''id'', JStr ''b1'')]],
       scan_date = None, other_fields = (\<lambda>key. None) \<rparr>"




section \<open>Counting separators\<close>

text \<open>
  The occurrences of \<open>p\<close> in \<open>s\<close>: the number of positions of \<open>s\<close> at which \<open>p\<close> starts. Two
  occurrences may overlap.
\<close>

fun occurrences :: "string \<Rightarrow> string \<Rightarrow> nat" where
  "occurrences [] p = (if p = [] then 1 else 0)"
| "occurrences (c # cs) p = (if startsWith (c # cs) p then 1 else 0) + occurrences cs p"

text \<open>
  The separators a scan from left to right finds when it goes on behind each separator it
  has found, so that an occurrence overlapping the previous separator is not counted.
\<close>

function separators_found :: "string \<Rightarrow> string \<Rightarrow> nat" where
  "separators_found s sep =
     (if sep = [] then length s - 1
      else case indexOf s sep of
             None \<Rightarrow> 0
           | Some i \<Rightarrow> Suc (separators_found (drop (i + length sep) s) sep))"
  by pat_completeness auto
termination
proof (relation "measure (\<lambda>(s, sep). length s)")
  show "wf (measure (\<lambda>(s, sep). length s))" by simp
next
  fix s sep :: string and i
  assume "sep \<noteq> []" and "indexOf s sep = Some i"
  then have "i + length sep \<le> length s" and "0 < length sep"
    by (simp_all add: indexOf_bound)
  then show "((drop (i + length sep) s, sep), (s, sep)) \<in> measure (\<lambda>(s, sep). length s)"
    by (cases sep) simp_all
qed

declare separators_found.simps [simp del]

section \<open>The order in which the rule is resolved, as the specification words it\<close>

text \<open>
  The text begins with a bracketed tag; a dictionary key occurs in the text as a substring,
  and no earlier key of the dictionary does; the text before the first colon qualifies as
  a rule.
\<close>

definition leading_tag :: "string \<Rightarrow> string \<Rightarrow> string \<Rightarrow> bool" where
  "leading_tag clean tag rest \<longleftrightarrow>
     clean = ''['' @ tag @ '']'' @ rest \<and> tag \<noteq> [] \<and> CHR '']'' \<notin> set tag"

definition occurs_in :: "string \<Rightarrow> string \<Rightarrow> bool" where
  "occurs_in key clean \<longleftrightarrow> (\<exists>before after. clean = before @ key @ after)"

definition first_key_found :: "string \<Rightarrow> nat \<Rightarrow> bool" where
  "first_key_found clean i \<longleftrightarrow>
     i < length FRIENDLY_TITLES
     \<and> occurs_in (fst (FRIENDLY_TITLES ! i)) clean
     \<and> (\<forall>j<i. \<not> occurs_in (fst (FRIENDLY_TITLES ! j)) clean)"

definition colon_prefix :: "string \<Rightarrow> string \<Rightarrow> bool" where
  "colon_prefix clean pre \<longleftrightarrow>
     (\<exists>post. clean = pre @ '':'' @ post) \<and> CHR '':'' \<notin> set pre
     \<and> length pre < 50 \<and> 3 < length pre \<and> CHR 0x0A \<notin> set pre"

section \<open>Properties of the parser\<close>

lemma startsWith_iff: "startsWith s p \<longleftrightarrow> take (length p) s = p"
  by (induction s p rule: startsWith.induct) auto

lemma startsWith_rejoin: "startsWith s p \<Longrightarrow> p @ drop (length p) s = s"
  by (metis append_take_drop_id startsWith_iff)

lemma indexOf_Some:
  "indexOf s p = Some i \<Longrightarrow> startsWith (drop i s) p \<and> occurrences s p = occurrences (drop i s) p"
proof (induction s arbitrary: i)
  case Nil
  then show ?case by (simp split: if_splits)
next
  case (Cons c cs)
  show ?case
  proof (cases "startsWith (c # cs) p")
    case True
    with Cons.prems show ?thesis by simp
  next
    case False
    with Cons.prems obtain j where j: "indexOf cs p = Some j" "i = Suc j" by auto
    with Cons.IH [of j] False show ?thesis by simp
  qed
qed

lemma indexOf_None: "indexOf s p = None \<Longrightarrow> occurrences s p = 0"
  by (induction s) (auto split: if_splits)

lemma js_split_nonempty: "sep \<noteq> [] \<Longrightarrow> js_split s sep \<noteq> []"
  by (subst js_split.simps) (simp split: option.splits)

lemma length_js_split: "sep \<noteq> [] \<Longrightarrow> length (js_split s sep) = Suc (separators_found s sep)"
proof (induction s sep rule: js_split.induct)
  case (1 s sep)
  show ?case
  proof (cases "indexOf s sep")
    case None
    with "1.prems" show ?thesis
      by (subst js_split.simps, subst separators_found.simps) simp
  next
    case (Some i)
    with "1.prems" "1.IH" [of i] show ?thesis
      by (subst js_split.simps, subst separators_found.simps) simp
  qed
qed

lemma join_js_split: "sep \<noteq> [] \<Longrightarrow> join (js_split s sep) sep = s"
proof (induction s sep rule: js_split.induct)
  case (1 s sep)
  show ?case
  proof (cases "indexOf s sep")
    case None
    with "1.prems" show ?thesis
      by (subst js_split.simps) simp
  next
    case (Some i)
    let ?t = "drop (i + length sep) s"
    obtain y ys where tl: "js_split ?t sep = y # ys"
      using js_split_nonempty [OF "1.prems", of ?t] by (cases "js_split ?t sep") auto
    have ih: "join (js_split ?t sep) sep = ?t"
      using "1.IH" [OF "1.prems" Some] "1.prems" by simp
    have sw: "startsWith (drop i s) sep" using indexOf_Some [OF Some] by simp
    have "js_split s sep = take i s # y # ys"
      using Some "1.prems" tl by (subst js_split.simps) simp
    then have "join (js_split s sep) sep = take i s @ sep @ join (y # ys) sep" by simp
    also have "\<dots> = take i s @ sep @ ?t" using ih tl by simp
    also have "\<dots> = take i s @ drop i s"
      using startsWith_rejoin [OF sw] by (simp add: add.commute)
    finally show ?thesis by simp
  qed
qed

lemma occurrences_drop_le: "occurrences (drop k s) p \<le> occurrences s p"
proof (induction s arbitrary: k)
  case Nil then show ?case by simp
next
  case (Cons c cs)
  show ?case
  proof (cases k)
    case 0 then show ?thesis by simp
  next
    case (Suc j)
    with Cons.IH [of j] show ?thesis by simp
  qed
qed

lemma js_includes_occurrences: "js_includes s p \<longleftrightarrow> 0 < occurrences s p"
  unfolding js_includes_def by (induction s) auto

lemma js_includes_drop: "js_includes (drop k s) p \<Longrightarrow> js_includes s p"
  using occurrences_drop_le [of k s p] by (simp add: js_includes_occurrences)

lemma occurrences_skip_separator:
  assumes "startsWith t '' | ''" and "\<not> js_includes t '' | | ''"
  shows "occurrences t '' | '' = Suc (occurrences (drop 3 t) '' | '')"
proof -
  from assms(1) obtain r where t: "t = '' | '' @ r"
    by (metis startsWith_rejoin)
  have "\<not> startsWith t '' | | ''" using assms(2)
    by (cases t) (auto simp: js_includes_def)
  then have "\<not> startsWith (CHR '' '' # r) '' | ''" using t by (cases r) auto
  then show ?thesis using t by simp
qed

lemma separators_found_occurrences:
  "\<not> js_includes s '' | | '' \<Longrightarrow> separators_found s '' | '' = occurrences s '' | ''"
proof (induction s "'' | ''" rule: separators_found.induct)
  case (1 s)
  show ?case
  proof (cases "indexOf s '' | ''")
    case None
    then show ?thesis
      by (subst separators_found.simps) (simp add: indexOf_None)
  next
    case (Some i)
    let ?t = "drop i s"
    have sw: "startsWith ?t '' | ''" and occ: "occurrences s '' | '' = occurrences ?t '' | ''"
      using indexOf_Some [OF Some] by simp_all
    have ni: "\<not> js_includes ?t '' | | ''" using "1.prems" js_includes_drop by blast
    have ni': "\<not> js_includes (drop (i + 3) s) '' | | ''" using "1.prems" js_includes_drop by blast
    have "separators_found s '' | '' = Suc (separators_found (drop (i + 3) s) '' | '')"
      using Some by (subst separators_found.simps) (simp add: numeral_3_eq_3)
    also have "\<dots> = Suc (occurrences (drop (i + 3) s) '' | '')"
      using "1.hyps" [OF _ Some] ni' by (simp add: numeral_3_eq_3)
    also have "\<dots> = occurrences ?t '' | ''"
      using occurrences_skip_separator [OF sw ni] by (simp add: add.commute)
    finally show ?thesis using occ by simp
  qed
qed

lemma raw_parse_part: "raw (parse_part index part) = part"
  by (simp add: parse_part_def split: prod.splits)

lemma viol_id_parse_part: "viol_id (parse_part index part) = ''viol-'' @ show_nat index"
  by (simp add: parse_part_def split: prod.splits)

lemma map_raw_parseMessages:
  "map raw (parseMessages rawMessage) = (if rawMessage = [] then [] else js_split rawMessage '' | '')"
proof -
  have "map raw (map (\<lambda>(index, part). parse_part index part) (enumerate n ps)) = ps" for n ps
    by (induction ps arbitrary: n) (simp_all add: raw_parse_part)
  then show ?thesis by (simp add: parseMessages_def)
qed

text \<open>
  C4, as amended. The empty string is parsed into the empty sequence. A non-empty raw
  message is parsed into exactly \<open>n + 1\<close> violations, where \<open>n\<close> is the number of separators
  \<open>" | "\<close> found from left to right, the scan going on behind each separator; when the message
  does not contain \<open>" | | "\<close>, two separators sharing a space, \<open>n\<close> is the number of
  occurrences of the separator. The violations are in input order: their raw texts, joined
  by the separator, are the raw message, and the violation at position \<open>i\<close> has the id
  \<open>viol-i\<close>.
\<close>

theorem parseMessages_count:
  "parseMessages [] = []
   \<and> (rawMessage \<noteq> [] \<longrightarrow>
        length (parseMessages rawMessage) = Suc (separators_found rawMessage '' | ''))
   \<and> (rawMessage \<noteq> [] \<longrightarrow> \<not> js_includes rawMessage '' | | '' \<longrightarrow>
        length (parseMessages rawMessage) = Suc (occurrences rawMessage '' | ''))
   \<and> join (map raw (parseMessages rawMessage)) '' | '' = rawMessage
   \<and> (\<forall>i < length (parseMessages rawMessage).
        viol_id (parseMessages rawMessage ! i) = ''viol-'' @ show_nat i)"
proof -
  have len: "length (parseMessages rawMessage) = Suc (separators_found rawMessage '' | '')"
    if "rawMessage \<noteq> []"
    using that length_js_split [of "'' | ''" rawMessage] by (simp add: parseMessages_def)
  have joined: "join (map raw (parseMessages rawMessage)) '' | '' = rawMessage"
    using join_js_split [of "'' | ''" rawMessage] by (simp add: map_raw_parseMessages)
  have ids: "viol_id (parseMessages rawMessage ! i) = ''viol-'' @ show_nat i"
    if "i < length (parseMessages rawMessage)" for i
    using that
    by (simp add: parseMessages_def nth_enumerate_eq viol_id_parse_part split: if_splits)
  show ?thesis
    using len joined ids separators_found_occurrences [of rawMessage]
    by (simp add: parseMessages_def)
qed

theorem parseMessages_count_witness:
  "''a | b'' \<noteq> [] \<and> \<not> js_includes ''a | b'' '' | | ''
   \<and> occurrences ''a | b'' '' | '' = 1
   \<and> length (parseMessages ''a | b'') = 2
   \<and> map raw (parseMessages ''a | b'') = [''a'', ''b'']
   \<and> map viol_id (parseMessages ''a | b'') = [''viol-0'', ''viol-1'']"
proof -
  have h: "''a | b'' \<noteq> []" "\<not> js_includes ''a | b'' '' | | ''"
    by (simp_all add: js_includes_def)
  have occ: "occurrences ''a | b'' '' | '' = 1" by simp
  have len: "length (parseMessages ''a | b'') = 2"
    using parseMessages_count [of "''a | b''"] h occ by simp
  have "map raw (parseMessages ''a | b'') = [''a'', ''b'']"
       "map viol_id (parseMessages ''a | b'') = [''viol-0'', ''viol-1'']"
    by code_simp+
  with h occ len show ?thesis by simp
qed

text \<open>
  C4 as it is written fails on \<open>" | | "\<close>: the separator occurs twice in it, at the positions
  0 and 2, and the message is parsed into two violations, not three.
\<close>

theorem parseMessages_count_counterexample:
  "occurrences '' | | '' '' | '' = 2 \<and> length (parseMessages '' | | '') = 2
   \<and> length (parseMessages '' | | '') \<noteq> occurrences '' | | '' '' | '' + 1"
  by code_simp

lemma bracket_tag_iff: "bracket_tag clean = Some tag \<longleftrightarrow> (\<exists>rest. leading_tag clean tag rest)"
proof
  assume a: "bracket_tag clean = Some tag"
  show "\<exists>rest. leading_tag clean tag rest"
  proof (cases clean)
    case Nil
    with a show ?thesis by (simp add: bracket_tag_def)
  next
    case (Cons c cs)
    let ?P = "\<lambda>x. x \<noteq> CHR '']''"
    let ?ok = "c = CHR ''['' \<and> takeWhile ?P cs \<noteq> [] \<and> dropWhile ?P cs \<noteq> []"
    have eq: "bracket_tag (c # cs) = (if ?ok then Some (takeWhile ?P cs) else None)"
      by (simp add: bracket_tag_def)
    from a Cons eq have ite: "(if ?ok then Some (takeWhile ?P cs) else None) = Some tag"
      by simp
    then have ok: ?ok by (metis option.distinct(1))
    with ite have tag: "tag = takeWhile ?P cs" by (metis option.inject)
    from ok have "\<not> ?P (hd (dropWhile ?P cs))" using hd_dropWhile [of ?P cs] by blast
    then have "hd (dropWhile ?P cs) = CHR '']''" by simp
    with ok have r: "dropWhile ?P cs = CHR '']'' # tl (dropWhile ?P cs)"
      by (cases "dropWhile ?P cs") simp_all
    have "cs = takeWhile ?P cs @ dropWhile ?P cs" by simp
    with r tag have cs: "cs = tag @ CHR '']'' # tl (dropWhile ?P cs)" by simp
    have "CHR '']'' \<notin> set tag" unfolding tag by (auto dest: set_takeWhileD)
    with cs ok tag Cons have "leading_tag clean tag (tl (dropWhile ?P cs))"
      by (simp add: leading_tag_def)
    then show ?thesis ..
  qed
next
  assume "\<exists>rest. leading_tag clean tag rest"
  then obtain rest where tx: "clean = CHR ''['' # tag @ CHR '']'' # rest"
    and ne: "tag \<noteq> []" and ni: "CHR '']'' \<notin> set tag"
    by (auto simp: leading_tag_def)
  let ?P = "\<lambda>x. x \<noteq> CHR '']''"
  from ni have "takeWhile ?P (tag @ CHR '']'' # rest) = tag"
    and "dropWhile ?P (tag @ CHR '']'' # rest) = CHR '']'' # rest"
    by (induction tag) auto
  with tx ne show "bracket_tag clean = Some tag"
    by (simp add: bracket_tag_def)
qed

lemma replace_first_prefix: "p \<noteq> [] \<Longrightarrow> replace_first (p @ rest) p [] = rest"
proof -
  assume "p \<noteq> []"
  then obtain c cs where "p @ rest = c # cs" by (cases p) auto
  moreover have "startsWith (p @ rest) p" by (simp add: startsWith_iff)
  ultimately have "indexOf (p @ rest) p = Some 0" by simp
  then show ?thesis by (simp add: replace_first_def)
qed

lemma js_includes_iff: "js_includes clean key \<longleftrightarrow> occurs_in key clean"
proof
  assume "js_includes clean key"
  then obtain i where i: "indexOf clean key = Some i" by (auto simp: js_includes_def)
  then have "startsWith (drop i clean) key" by (simp add: indexOf_Some)
  then have "key @ drop (length key) (drop i clean) = drop i clean" by (rule startsWith_rejoin)
  then have "clean = take i clean @ key @ drop (length key) (drop i clean)" by simp
  then show "occurs_in key clean" unfolding occurs_in_def by blast
next
  assume "occurs_in key clean"
  then obtain a b where t: "clean = a @ key @ b" by (auto simp: occurs_in_def)
  have "0 < occurrences (a @ key @ b) key"
  proof (induction a)
    case Nil
    have "startsWith (key @ b) key" by (simp add: startsWith_iff)
    then show ?case by (cases "key @ b") auto
  next
    case (Cons x a)
    then show ?case by simp
  qed
  with t show "js_includes clean key" by (simp add: js_includes_occurrences)
qed

lemma indexOf_char_None: "indexOf s [c] = None \<longleftrightarrow> c \<notin> set s"
  by (induction s) auto

lemma indexOf_char_Some:
  "indexOf s [c] = Some i \<longleftrightarrow> (\<exists>post. s = take i s @ c # post) \<and> c \<notin> set (take i s) \<and> i < length s"
proof (induction s arbitrary: i)
  case Nil
  then show ?case by simp
next
  case (Cons x xs)
  show ?case
  proof (cases "x = c")
    case True
    then show ?thesis by (cases i) auto
  next
    case False
    show ?thesis
    proof (cases i)
      case 0
      with False show ?thesis by auto
    next
      case (Suc j)
      with False Cons.IH [of j] show ?thesis by auto
    qed
  qed
qed

lemma js_includes_char: "js_includes s [c] \<longleftrightarrow> c \<in> set s"
  by (simp add: js_includes_def indexOf_char_None)

lemma titles_all_not_general:
  "list_all (\<lambda>(key, title). title \<noteq> ''General Violation'') FRIENDLY_TITLES"
  by (simp add: FRIENDLY_TITLES_def)

lemma titles_not_general: "(key, title) \<in> set FRIENDLY_TITLES \<Longrightarrow> title \<noteq> ''General Violation''"
  using titles_all_not_general unfolding list_all_iff by blast

lemma dictionary_title_Some:
  "first_key_found clean i \<Longrightarrow> dictionary_title clean = Some (snd (FRIENDLY_TITLES ! i))"
proof -
  assume a: "first_key_found clean i"
  let ?P = "\<lambda>(key, title). js_includes clean key"
  from a have i: "i < length FRIENDLY_TITLES"
    and here: "?P (FRIENDLY_TITLES ! i)"
    and earlier: "\<forall>j<i. \<not> ?P (FRIENDLY_TITLES ! j)"
    by (simp_all add: first_key_found_def js_includes_iff case_prod_beta)
  have "\<exists>k<length FRIENDLY_TITLES. ?P (FRIENDLY_TITLES ! k)
          \<and> FRIENDLY_TITLES ! i = FRIENDLY_TITLES ! k \<and> (\<forall>j<k. \<not> ?P (FRIENDLY_TITLES ! j))"
    using i here earlier by (intro exI [of _ i]) simp
  then have "find ?P FRIENDLY_TITLES = Some (FRIENDLY_TITLES ! i)"
    by (simp only: find_Some_iff)
  then show ?thesis by (simp add: dictionary_title_def)
qed

lemma dictionary_title_None:
  "(\<nexists>i. first_key_found clean i) \<Longrightarrow> dictionary_title clean = None"
proof -
  assume a: "\<nexists>i. first_key_found clean i"
  let ?P = "\<lambda>(key, title). js_includes clean key"
  have "find ?P FRIENDLY_TITLES = None"
  proof (rule ccontr)
    assume "find ?P FRIENDLY_TITLES \<noteq> None"
    then obtain x where fx: "find ?P FRIENDLY_TITLES = Some x" by auto
    from fx [unfolded find_Some_iff]
    obtain i where "i < length FRIENDLY_TITLES \<and> ?P (FRIENDLY_TITLES ! i)
        \<and> x = FRIENDLY_TITLES ! i \<and> (\<forall>j<i. \<not> ?P (FRIENDLY_TITLES ! j))" ..
    then have "first_key_found clean i"
      by (simp add: first_key_found_def js_includes_iff case_prod_beta)
    with a show False by blast
  qed
  then show ?thesis by (simp add: dictionary_title_def)
qed

lemma dictionary_title_not_general: "dictionary_title clean \<noteq> Some ''General Violation''"
proof
  assume "dictionary_title clean = Some ''General Violation''"
  then obtain key where fx: "find (\<lambda>(key, title). js_includes clean key) FRIENDLY_TITLES = Some (key, ''General Violation'')"
    by (auto simp: dictionary_title_def)
  from fx [unfolded find_Some_iff]
  obtain i where "i < length FRIENDLY_TITLES \<and> (case FRIENDLY_TITLES ! i of (key, title) \<Rightarrow> js_includes clean key)
      \<and> (key, ''General Violation'') = FRIENDLY_TITLES ! i
      \<and> (\<forall>j<i. \<not> (case FRIENDLY_TITLES ! j of (key, title) \<Rightarrow> js_includes clean key))" ..
  then have "(key, ''General Violation'') \<in> set FRIENDLY_TITLES"
    by simp
  then show False using titles_not_general by blast
qed

lemma rule_parse_part: "rule (parse_part index part) = fst (resolve_rule (working_text part))"
  by (simp add: parse_part_def working_text_def split: prod.splits)

lemma description_parse_part:
  "description (parse_part index part) = strip_trailing_period (snd (resolve_rule (working_text part)))"
  by (simp add: parse_part_def working_text_def split: prod.splits)

lemma resolve_rule_tag:
  assumes "leading_tag clean tag rest"
  shows "resolve_rule clean = (tag, trim rest)"
proof -
  from assms have "bracket_tag clean = Some tag" using bracket_tag_iff by blast
  moreover from assms have "replace_first clean (''['' @ tag @ '']'') [] = rest"
    using replace_first_prefix [of "''['' @ tag @ '']''" rest] by (simp add: leading_tag_def)
  ultimately show ?thesis by (simp add: resolve_rule_def)
qed

lemma resolve_rule_title:
  assumes "\<nexists>tag rest. leading_tag clean tag rest" and "first_key_found clean i"
  shows "resolve_rule clean = (snd (FRIENDLY_TITLES ! i), clean)"
proof -
  from assms(1) have "bracket_tag clean = None"
    using bracket_tag_iff [of clean] by (cases "bracket_tag clean") auto
  moreover have d: "dictionary_title clean = Some (snd (FRIENDLY_TITLES ! i))"
    using assms(2) by (rule dictionary_title_Some)
  moreover have "snd (FRIENDLY_TITLES ! i) \<noteq> ''General Violation''"
    using dictionary_title_not_general [of clean] d by simp
  ultimately show ?thesis by (simp add: resolve_rule_def)
qed

lemma colon_prefix_indexOf:
  "colon_prefix clean pre \<longleftrightarrow>
     (\<exists>i. indexOf clean '':'' = Some i \<and> pre = take i clean \<and> i < 50 \<and> 3 < i
          \<and> \<not> js_includes (take i clean) [CHR 0x0A])"
proof
  assume a: "colon_prefix clean pre"
  then obtain post where c: "clean = pre @ CHR '':'' # post" and n: "CHR '':'' \<notin> set pre"
    by (auto simp: colon_prefix_def)
  have "indexOf clean '':'' = Some (length pre)"
    unfolding indexOf_char_Some using c n by auto
  with a c show "\<exists>i. indexOf clean '':'' = Some i \<and> pre = take i clean \<and> i < 50 \<and> 3 < i
          \<and> \<not> js_includes (take i clean) [CHR 0x0A]"
    by (auto simp: colon_prefix_def js_includes_char)
next
  assume "\<exists>i. indexOf clean '':'' = Some i \<and> pre = take i clean \<and> i < 50 \<and> 3 < i
          \<and> \<not> js_includes (take i clean) [CHR 0x0A]"
  then obtain i where i: "indexOf clean '':'' = Some i" and p: "pre = take i clean"
    and b: "i < 50" "3 < i" and nl: "CHR 0x0A \<notin> set (take i clean)"
    by (auto simp: js_includes_char)
  from i obtain post where "clean = take i clean @ CHR '':'' # post"
    and "CHR '':'' \<notin> set (take i clean)" and "i < length clean"
    unfolding indexOf_char_Some by blast
  with p b nl show "colon_prefix clean pre"
    unfolding colon_prefix_def by (metis append_Cons append_Nil length_take min.absorb2 less_imp_le_nat)
qed

lemma resolve_rule_colon:
  assumes "\<nexists>tag rest. leading_tag clean tag rest" and "\<nexists>i. first_key_found clean i"
  shows "colon_prefix clean pre \<Longrightarrow> resolve_rule clean = (trim pre, clean)"
    and "(\<nexists>pre. colon_prefix clean pre) \<Longrightarrow> resolve_rule clean = (''General Violation'', clean)"
proof -
  from assms(1) have b: "bracket_tag clean = None"
    using bracket_tag_iff [of clean] by (cases "bracket_tag clean") auto
  have d: "dictionary_title clean = None"
    using assms(2) by (rule dictionary_title_None)
  {
    assume "colon_prefix clean pre"
    then obtain i where "indexOf clean '':'' = Some i" "pre = take i clean" "i < 50" "3 < i"
      "\<not> js_includes (take i clean) [CHR 0x0A]" "i < length clean"
      unfolding colon_prefix_indexOf indexOf_char_Some by blast
    with b d show "resolve_rule clean = (trim pre, clean)"
      by (simp add: resolve_rule_def)
  }
  {
    assume no: "\<nexists>pre. colon_prefix clean pre"
    show "resolve_rule clean = (''General Violation'', clean)"
    proof (cases "indexOf clean '':''")
      case None
      with b d show ?thesis by (simp add: resolve_rule_def)
    next
      case (Some i)
      then have len: "i < length clean" unfolding indexOf_char_Some by blast
      from no Some have "\<not> (i < 50 \<and> 3 < i \<and> \<not> js_includes (take i clean) [CHR 0x0A])"
        unfolding colon_prefix_indexOf by blast
      with b d Some len show ?thesis by (auto simp: resolve_rule_def)
    qed
  }
qed

text \<open>
  C6. For every message part the rule is resolved in this order, on the working text of the
  part (trimmed, without the prefix, the quotes and the help link). (1) A leading bracketed
  tag is the rule, without the brackets, and the description is the text behind the tag.
  (2) Otherwise the friendly title of the first dictionary key that occurs in the text is
  the rule, and the description keeps the key. (3) Otherwise, when the first colon stands
  within the first 50 characters and the text before it is longer than 3 characters and has
  no line break, that text, trimmed, is the rule. (4) Otherwise the rule is
  \<open>General Violation\<close>.
\<close>

theorem rule_priority:
  "(\<forall>tag rest. leading_tag (working_text part) tag rest \<longrightarrow>
       rule (parse_part index part) = tag
       \<and> description (parse_part index part) = strip_trailing_period (trim rest))
   \<and> ((\<nexists>tag rest. leading_tag (working_text part) tag rest) \<longrightarrow>
        (\<forall>i. first_key_found (working_text part) i \<longrightarrow>
           rule (parse_part index part) = snd (FRIENDLY_TITLES ! i)
           \<and> description (parse_part index part) = strip_trailing_period (working_text part))
        \<and> ((\<nexists>i. first_key_found (working_text part) i) \<longrightarrow>
             (\<forall>pre. colon_prefix (working_text part) pre \<longrightarrow>
                rule (parse_part index part) = trim pre)
             \<and> ((\<nexists>pre. colon_prefix (working_text part) pre) \<longrightarrow>
                  rule (parse_part index part) = ''General Violation'')
             \<and> description (parse_part index part) = strip_trailing_period (working_text part)))"
proof -
  let ?c = "working_text part"
  have 1: "rule (parse_part index part) = tag
            \<and> description (parse_part index part) = strip_trailing_period (trim rest)"
    if "leading_tag ?c tag rest" for tag rest
    using resolve_rule_tag [OF that] by (simp add: rule_parse_part description_parse_part)
  have 2: "rule (parse_part index part) = snd (FRIENDLY_TITLES ! i)
            \<and> description (parse_part index part) = strip_trailing_period ?c"
    if "\<nexists>tag rest. leading_tag ?c tag rest" "first_key_found ?c i" for i
    using resolve_rule_title [OF that] by (simp add: rule_parse_part description_parse_part)
  have 3: "rule (parse_part index part) = trim pre"
    if "\<nexists>tag rest. leading_tag ?c tag rest" "\<nexists>i. first_key_found ?c i" "colon_prefix ?c pre" for pre
    using resolve_rule_colon(1) [OF that] by (simp add: rule_parse_part)
  have 4: "rule (parse_part index part) = ''General Violation''"
    if "\<nexists>tag rest. leading_tag ?c tag rest" "\<nexists>i. first_key_found ?c i" "\<nexists>pre. colon_prefix ?c pre"
    using resolve_rule_colon(2) [OF that] by (simp add: rule_parse_part)
  have 5: "description (parse_part index part) = strip_trailing_period ?c"
    if "\<nexists>tag rest. leading_tag ?c tag rest" "\<nexists>i. first_key_found ?c i"
  proof (cases "\<exists>pre. colon_prefix ?c pre")
    case True
    then obtain pre where "colon_prefix ?c pre" ..
    from resolve_rule_colon(1) [OF that this] show ?thesis by (simp add: description_parse_part)
  next
    case False
    from resolve_rule_colon(2) [OF that False] show ?thesis by (simp add: description_parse_part)
  qed
  show ?thesis using 1 2 3 4 5 by blast
qed

lemma no_leading_tag: "bracket_tag clean = None \<Longrightarrow> \<nexists>tag rest. leading_tag clean tag rest"
  using bracket_tag_iff [of clean] by (metis option.distinct(1))

lemma no_key_found: "dictionary_title clean = None \<Longrightarrow> \<nexists>i. first_key_found clean i"
  using dictionary_title_Some [of clean] by (metis option.distinct(1))

lemma no_colon_prefix: "indexOf clean '':'' = None \<Longrightarrow> \<nexists>pre. colon_prefix clean pre"
  unfolding colon_prefix_indexOf by simp

theorem rule_priority_witness:
  "leading_tag (working_text ''[empty-alt-tag] Image has no alt.'') ''empty-alt-tag'' '' Image has no alt.''
   \<and> rule (parse_part 0 ''[empty-alt-tag] Image has no alt.'') = ''empty-alt-tag''
   \<and> description (parse_part 0 ''[empty-alt-tag] Image has no alt.'') = ''Image has no alt''
   \<and> (\<nexists>tag rest. leading_tag (working_text ''Link Name Rule: fix it'') tag rest)
   \<and> first_key_found (working_text ''Link Name Rule: fix it'') 2
   \<and> rule (parse_part 0 ''Link Name Rule: fix it'') = ''Missing Link Text''
   \<and> description (parse_part 0 ''Link Name Rule: fix it'') = ''Link Name Rule: fix it''
   \<and> (\<nexists>tag rest. leading_tag (working_text ''Heading order: skipped level'') tag rest)
   \<and> (\<nexists>i. first_key_found (working_text ''Heading order: skipped level'') i)
   \<and> colon_prefix (working_text ''Heading order: skipped level'') ''Heading order''
   \<and> rule (parse_part 0 ''Heading order: skipped level'') = ''Heading order''
   \<and> (\<nexists>tag rest. leading_tag (working_text ''Something is wrong'') tag rest)
   \<and> (\<nexists>i. first_key_found (working_text ''Something is wrong'') i)
   \<and> (\<nexists>pre. colon_prefix (working_text ''Something is wrong'') pre)
   \<and> rule (parse_part 0 ''Something is wrong'') = ''General Violation''"
proof -
  let ?p1 = "''[empty-alt-tag] Image has no alt.''"
  let ?p2 = "''Link Name Rule: fix it''"
  let ?p3 = "''Heading order: skipped level''"
  let ?p4 = "''Something is wrong''"
  have w: "working_text ?p1 = ?p1" "working_text ?p2 = ?p2" "working_text ?p3 = ?p3"
    "working_text ?p4 = ?p4"
    by code_simp+
  have t1: "leading_tag (working_text ?p1) ''empty-alt-tag'' '' Image has no alt.''"
    by (simp add: w leading_tag_def)
  have d1: "strip_trailing_period (trim '' Image has no alt.'') = ''Image has no alt''"
    by code_simp
  have n2: "\<nexists>tag rest. leading_tag (working_text ?p2) tag rest"
    by (rule no_leading_tag) (simp add: w bracket_tag_def)
  have k2: "first_key_found (working_text ?p2) 2"
    by (simp add: w first_key_found_def js_includes_iff [symmetric] js_includes_def
        FRIENDLY_TITLES_def numeral_2_eq_2 All_less_Suc)
  have d2: "strip_trailing_period ?p2 = ?p2" by code_simp
  have n3: "\<nexists>tag rest. leading_tag (working_text ?p3) tag rest"
    by (rule no_leading_tag) (simp add: w bracket_tag_def)
  have k3: "\<nexists>i. first_key_found (working_text ?p3) i"
    by (rule no_key_found) (simp add: w dictionary_title_def js_includes_def FRIENDLY_TITLES_def)
  have c3: "colon_prefix (working_text ?p3) ''Heading order''"
    by (simp add: w colon_prefix_def)
  have r3: "trim ''Heading order'' = ''Heading order''" by code_simp
  have n4: "\<nexists>tag rest. leading_tag (working_text ?p4) tag rest"
    by (rule no_leading_tag) (simp add: w bracket_tag_def)
  have k4: "\<nexists>i. first_key_found (working_text ?p4) i"
    by (rule no_key_found) (simp add: w dictionary_title_def js_includes_def FRIENDLY_TITLES_def)
  have c4: "\<nexists>pre. colon_prefix (working_text ?p4) pre"
    by (rule no_colon_prefix) (simp add: w)
  from rule_priority [of ?p1 0] t1 d1
  have 1: "rule (parse_part 0 ?p1) = ''empty-alt-tag''"
    "description (parse_part 0 ?p1) = ''Image has no alt''"
    by metis+
  from rule_priority [of ?p2 0] n2 k2 d2
  have 2: "rule (parse_part 0 ?p2) = ''Missing Link Text''"
    "description (parse_part 0 ?p2) = ?p2"
    by (simp_all add: w FRIENDLY_TITLES_def)
  from rule_priority [of ?p3 0] n3 k3 c3 r3
  have 3: "rule (parse_part 0 ?p3) = ''Heading order''"
    by metis
  from rule_priority [of ?p4 0] n4 k4 c4
  have 4: "rule (parse_part 0 ?p4) = ''General Violation''"
    by metis
  from t1 1 n2 k2 2 n3 k3 c3 3 n4 k4 c4 4 show ?thesis by (intro conjI)
qed

text \<open>
  C8. The message \<open>[foo-bar] Some description. More information: https://example.com/x\<close> is
  parsed into a single violation: the rule is \<open>foo-bar\<close>, the description is
  \<open>Some description\<close> without the trailing period, and the help link is
  \<open>https://example.com/x\<close>; the label and the link are gone from the description.
\<close>

theorem parseMessages_example:
  "parseMessages ''[foo-bar] Some description. More information: https://example.com/x'' =
     [\<lparr> viol_id = ''viol-0'',
        rule = ''foo-bar'',
        description = ''Some description'',
        helpUrl = Some ''https://example.com/x'',
        raw = ''[foo-bar] Some description. More information: https://example.com/x'' \<rparr>]"
  by code_simp


section \<open>JSON round trip\<close>

lemma hex_value_hex_digit: "d < 16 \<Longrightarrow> hex_value (hex_digit d) = Some d"
  by (auto simp: hex_value_def hex_digit_def Let_def)

lemma hex4_low:
  "n < 32 \<Longrightarrow> hex4 (CHR ''0'') (CHR ''0'') (hex_digit (n div 16)) (hex_digit (n mod 16)) = Some n"
proof -
  assume "n < 32"
  then have "n div 16 < 16" by simp
  moreover have "n mod 16 < 16" by simp
  moreover have "hex_value (CHR ''0'') = Some 0" by (simp add: hex_value_def)
  ultimately show ?thesis by (simp add: hex4_def hex_value_hex_digit)
qed

lemma lex_string_escape_char:
  "lex_string acc (escape_char c @ rest) = lex_string (c # acc) rest"
proof -
  let ?n = "of_char c :: nat"
  consider (short) "c \<in> {CHR 0x22, CHR 0x5C, CHR 0x08, CHR 0x0C, CHR 0x0A, CHR 0x0D, CHR 0x09}"
    | (low) "c \<notin> {CHR 0x22, CHR 0x5C, CHR 0x08, CHR 0x0C, CHR 0x0A, CHR 0x0D, CHR 0x09}" "?n < 32"
    | (plain) "c \<noteq> CHR 0x22" "c \<noteq> CHR 0x5C" "\<not> ?n < 32"
    by blast
  then show ?thesis
  proof cases
    case short
    then show ?thesis by (auto simp: escape_char_def simple_escape_def)
  next
    case low
    then have "escape_char c = [CHR 0x5C, CHR ''u'', CHR ''0'', CHR ''0'',
         hex_digit (?n div 16), hex_digit (?n mod 16)]"
      by (simp add: escape_char_def)
    moreover have "char_of ?n = c" by simp
    ultimately show ?thesis using low(2) hex4_low [of ?n] by simp
  next
    case plain
    then have "escape_char c = [c]" by (auto simp: escape_char_def)
    with plain show ?thesis by simp
  qed
qed

lemma lex_string_body:
  "lex_string acc (concat (map escape_char x) @ CHR 0x22 # r) = Inr (rev acc @ x, r)"
proof (induction x arbitrary: acc)
  case Nil
  show ?case by simp
next
  case (Cons c x)
  have "lex_string acc (concat (map escape_char (c # x)) @ CHR 0x22 # r)
        = lex_string acc (escape_char c @ (concat (map escape_char x) @ CHR 0x22 # r))"
    by simp
  also have "\<dots> = lex_string (c # acc) (concat (map escape_char x) @ CHR 0x22 # r)"
    by (rule lex_string_escape_char)
  also have "\<dots> = Inr (rev (c # acc) @ x, r)" by (rule Cons.IH)
  finally show ?case by simp
qed

lemma lex_quote_string: "lex (quote_string x @ r) = cons_token (TString x) (lex r)"
proof -
  have "lex (quote_string x @ r) = lex (CHR 0x22 # (concat (map escape_char x) @ CHR 0x22 # r))"
    by (simp add: quote_string_def)
  also have "\<dots> = (case lex_string [] (concat (map escape_char x) @ CHR 0x22 # r) of
                      Inl e \<Rightarrow> Inl e
                    | Inr (s, r') \<Rightarrow> cons_token (TString s) (lex r'))"
    by (subst lex.simps) (simp add: json_ws_def punctuation_def)
  also have "\<dots> = cons_token (TString x) (lex r)"
    by (simp add: lex_string_body)
  finally show ?thesis .
qed

lemma lex_punctuation:
  "punctuation c = Some t \<Longrightarrow> lex (c # r) = cons_token t (lex r)"
  by (subst lex.simps) (auto simp: json_ws_def punctuation_def split: if_splits)

lemma lex_joined:
  "lex (join (map quote_string (x # xs)) '','' @ '']'')
     = Inr (TString x # concat (map (\<lambda>y. [Comma, TString y]) xs) @ [RBracket])"
proof (induction xs arbitrary: x)
  case Nil
  have "lex '']'' = Inr [RBracket]"
    using lex_punctuation [of "CHR '']''" RBracket "[]"]
    by (simp add: punctuation_def cons_token_def lex.simps)
  then show ?case using lex_quote_string [of x "'']''"] by (simp add: cons_token_def)
next
  case (Cons y ys)
  have "lex (join (map quote_string (x # y # ys)) '','' @ '']'')
        = lex (quote_string x @ (CHR '','' # (join (map quote_string (y # ys)) '','' @ '']'')))"
    by simp
  also have "\<dots> = cons_token (TString x) (lex (CHR '','' # (join (map quote_string (y # ys)) '','' @ '']'')))"
    by (rule lex_quote_string)
  also have "lex (CHR '','' # (join (map quote_string (y # ys)) '','' @ '']''))
        = cons_token Comma (lex (join (map quote_string (y # ys)) '','' @ '']''))"
    by (rule lex_punctuation) (simp add: punctuation_def)
  finally show ?case using Cons.IH [of y] by (simp add: cons_token_def)
qed

lemma lex_stringify_ids: "lex (stringify_ids ids) = Inr (LBracket # id_tokens ids @ [RBracket])"
proof (cases ids)
  case Nil
  have "lex '']'' = Inr [RBracket]"
    using lex_punctuation [of "CHR '']''" RBracket "[]"]
    by (simp add: punctuation_def cons_token_def lex.simps)
  then have "lex ''[]'' = Inr [LBracket, RBracket]"
    using lex_punctuation [of "CHR ''[''" LBracket "'']''"]
    by (simp add: punctuation_def cons_token_def)
  with Nil show ?thesis by (simp add: stringify_ids_def id_tokens_def)
next
  case (Cons x xs)
  have "lex (stringify_ids ids) = cons_token LBracket (lex (join (map quote_string (x # xs)) '','' @ '']''))"
    unfolding stringify_ids_def Cons
    using lex_punctuation [of "CHR ''[''" LBracket] by (simp add: punctuation_def)
  then show ?thesis using Cons lex_joined [of x xs]
    by (simp add: cons_token_def id_tokens_def)
qed

lemma run_elements:
  "run ([FArr acc], AfterValue) (concat (map (\<lambda>y. [Comma, TString y]) xs) @ [RBracket])
     = Some ([], Finished (JArr (rev acc @ map JStr xs)))"
proof (induction xs arbitrary: acc)
  case Nil
  show ?case by (simp add: after_value_def)
next
  case (Cons y ys)
  show ?case using Cons.IH [of "JStr y # acc"]
    by (simp add: after_value_def open_value_def)
qed

lemma parse_id_tokens:
  "parse_tokens (LBracket # id_tokens ids @ [RBracket]) = Some (JArr (map JStr ids))"
proof (cases ids)
  case Nil
  then show ?thesis by (simp add: parse_tokens_def id_tokens_def open_value_def)
next
  case (Cons x xs)
  then show ?thesis using run_elements [of "[JStr x]" xs]
    by (simp add: parse_tokens_def id_tokens_def open_value_def)
qed

lemma JSON_parse_stringify_ids: "JSON_parse (stringify_ids ids) = Inr (JArr (map JStr ids))"
  by (simp add: JSON_parse_def lex_stringify_ids parse_id_tokens)

lemma the_strings_map_JStr: "the_strings (map JStr ids) = Some ids"
  by (induction ids) simp_all

lemma stringify_ids_not_empty: "stringify_ids ids \<noteq> []"
  by (simp add: stringify_ids_def)

lemma getIgnoredIds_written:
  "st STORAGE_KEY = Some (stringify_ids ids) \<Longrightarrow> getIgnoredIds st = Inr ids"
  by (simp add: getIgnoredIds_def stringify_ids_not_empty JSON_parse_stringify_ids
      the_strings_map_JStr)

lemma distinct_set_add: "distinct s \<Longrightarrow> distinct (set_add x s)"
  by (simp add: set_add_def)

lemma distinct_set_delete: "distinct s \<Longrightarrow> distinct (set_delete x s)"
  by (simp add: set_delete_def)

lemma distinct_foldl_set_add: "distinct s \<Longrightarrow> distinct (foldl (\<lambda>s x. set_add x s) s xs)"
  by (induction xs arbitrary: s) (simp_all add: distinct_set_add)

lemma distinct_new_Set: "distinct (new_Set xs)"
  by (simp add: new_Set_def distinct_foldl_set_add)

lemma distinct_forEach:
  "distinct s \<Longrightarrow>
   distinct (foldl (\<lambda>s ident. if b then set_add ident s else set_delete ident s) s ids)"
  by (induction ids arbitrary: s) (simp_all add: distinct_set_add distinct_set_delete)

section \<open>Properties of the store\<close>

text \<open>
  C1, as amended. \<open>getIgnoredIds\<close> returns the empty sequence when the key is absent or holds
  the empty string, and it returns the persisted sequence, in its order, when the key holds
  what the store wrote, the JSON text of an array of strings. When the key holds a
  non-empty text that is not JSON, the \<open>SyntaxError\<close> of \<open>JSON.parse\<close> reaches the caller.
\<close>

theorem getIgnoredIds_reads:
  "(st STORAGE_KEY = None \<longrightarrow> getIgnoredIds st = Inr [])
   \<and> (st STORAGE_KEY = Some [] \<longrightarrow> getIgnoredIds st = Inr [])
   \<and> (st STORAGE_KEY = Some (stringify_ids ids) \<longrightarrow> getIgnoredIds st = Inr ids)
   \<and> (\<forall>stored. st STORAGE_KEY = Some stored \<and> stored \<noteq> [] \<and> JSON_parse stored = Inl Syntax
          \<longrightarrow> getIgnoredIds st = Inl SyntaxError)"
  using getIgnoredIds_written [of st ids] by (simp add: getIgnoredIds_def)

theorem getIgnoredIds_reads_witness:
  \<open>getIgnoredIds Map.empty = Inr []
   \<and> getIgnoredIds [STORAGE_KEY \<mapsto> []] = Inr []
   \<and> stringify_ids [''a'', ''b''] = ''["a","b"]''
   \<and> getIgnoredIds [STORAGE_KEY \<mapsto> ''["a","b"]''] = Inr [''a'', ''b'']
   \<and> ''["a"'' \<noteq> [] \<and> JSON_parse ''["a"'' = Inl Syntax
   \<and> getIgnoredIds [STORAGE_KEY \<mapsto> ''["a"''] = Inl SyntaxError\<close>
proof -
  have s: \<open>stringify_ids [''a'', ''b''] = ''["a","b"]''\<close> by code_simp
  have p: \<open>JSON_parse ''["a"'' = Inl Syntax\<close> by code_simp
  from getIgnoredIds_reads [of Map.empty] have 1: "getIgnoredIds Map.empty = Inr []" by simp
  from getIgnoredIds_reads [of "[STORAGE_KEY \<mapsto> []]"]
  have 2: "getIgnoredIds [STORAGE_KEY \<mapsto> []] = Inr []" by simp
  from getIgnoredIds_reads [of \<open>[STORAGE_KEY \<mapsto> ''["a","b"]'']\<close> "[''a'', ''b'']"] s
  have 3: \<open>getIgnoredIds [STORAGE_KEY \<mapsto> ''["a","b"]''] = Inr [''a'', ''b'']\<close> by simp
  from getIgnoredIds_reads [of \<open>[STORAGE_KEY \<mapsto> ''["a"'']\<close>] p
  have 4: \<open>getIgnoredIds [STORAGE_KEY \<mapsto> ''["a"''] = Inl SyntaxError\<close> by simp
  from 1 2 s 3 p 4 show ?thesis by simp
qed

text \<open>
  C1 as it is written fails on a store whose key holds \<open>not json\<close>: \<open>getIgnoredIds\<close> throws
  and does not return the empty sequence.
\<close>

theorem getIgnoredIds_throws:
  "getIgnoredIds [STORAGE_KEY \<mapsto> ''not json''] = Inl SyntaxError
   \<and> getIgnoredIds [STORAGE_KEY \<mapsto> ''not json''] \<noteq> Inr []"
proof -
  have "JSON_parse ''not json'' = Inl Syntax" by code_simp
  then show ?thesis by (simp add: getIgnoredIds_def)
qed

text \<open>
  C10. When the stored sequence has no duplicate ids, the sequence that \<open>toggleIgnoreId\<close>
  returns has none, and it is the sequence that is read back from the store afterwards. The
  sequence that \<open>bulkIgnoreIds\<close> returns has no duplicate ids whatever the stored sequence
  is, and it is the sequence read back as well.
\<close>

theorem ignored_ids_distinct:
  "(getIgnoredIds st = Inr current \<and> distinct current \<longrightarrow>
      (\<exists>newIds st'. toggleIgnoreId ident st = Inr (newIds, st')
         \<and> distinct newIds \<and> getIgnoredIds st' = Inr newIds))
   \<and> (getIgnoredIds st = Inr current \<longrightarrow>
      (\<exists>newIds st'. bulkIgnoreIds ids shouldIgnore st = Inr (newIds, st')
         \<and> distinct newIds \<and> getIgnoredIds st' = Inr newIds))"
proof -
  have written: "getIgnoredIds (st(STORAGE_KEY \<mapsto> stringify_ids xs)) = Inr xs" for xs
    by (rule getIgnoredIds_written) simp
  have toggle: "\<exists>newIds st'. toggleIgnoreId ident st = Inr (newIds, st')
         \<and> distinct newIds \<and> getIgnoredIds st' = Inr newIds"
    if "getIgnoredIds st = Inr current" "distinct current"
    using that written by (simp add: toggleIgnoreId_def Let_def)
  have bulk: "\<exists>newIds st'. bulkIgnoreIds ids shouldIgnore st = Inr (newIds, st')
         \<and> distinct newIds \<and> getIgnoredIds st' = Inr newIds"
    if "getIgnoredIds st = Inr current"
    using that written distinct_forEach [OF distinct_new_Set]
    by (simp add: bulkIgnoreIds_def Let_def)
  from toggle bulk show ?thesis by blast
qed

theorem ignored_ids_distinct_witness:
  \<open>getIgnoredIds [STORAGE_KEY \<mapsto> ''["a","b"]''] = Inr [''a'', ''b'']
   \<and> distinct [''a'', ''b'']
   \<and> (\<exists>st'. toggleIgnoreId ''a'' [STORAGE_KEY \<mapsto> ''["a","b"]''] = Inr ([''b''], st')
         \<and> getIgnoredIds st' = Inr [''b''])
   \<and> getIgnoredIds [STORAGE_KEY \<mapsto> ''["a","a"]''] = Inr [''a'', ''a'']
   \<and> (\<exists>st'. bulkIgnoreIds [''b''] True [STORAGE_KEY \<mapsto> ''["a","a"]''] = Inr ([''a'', ''b''], st')
         \<and> getIgnoredIds st' = Inr [''a'', ''b''])\<close>
proof -
  let ?s1 = \<open>[STORAGE_KEY \<mapsto> ''["a","b"]'']\<close>
  let ?s2 = \<open>[STORAGE_KEY \<mapsto> ''["a","a"]'']\<close>
  have e1: \<open>stringify_ids [''a'', ''b''] = ''["a","b"]''\<close> by code_simp
  have e2: \<open>stringify_ids [''a'', ''a''] = ''["a","a"]''\<close> by code_simp
  have g1: "getIgnoredIds ?s1 = Inr [''a'', ''b'']"
    using getIgnoredIds_written [of ?s1 "[''a'', ''b'']"] e1 by simp
  have g2: "getIgnoredIds ?s2 = Inr [''a'', ''a'']"
    using getIgnoredIds_written [of ?s2 "[''a'', ''a'']"] e2 by simp
  have d: "distinct [''a'', ''b'']" by simp
  from ignored_ids_distinct [of ?s1 "[''a'', ''b'']" "''a''"] g1 d
  obtain n1 t1 where t: "toggleIgnoreId ''a'' ?s1 = Inr (n1, t1)" "getIgnoredIds t1 = Inr n1"
    by blast
  have "n1 = [''b'']" using t(1) g1 by (simp add: toggleIgnoreId_def Let_def)
  with t have 1: "\<exists>st'. toggleIgnoreId ''a'' ?s1 = Inr ([''b''], st') \<and> getIgnoredIds st' = Inr [''b'']"
    by blast
  from ignored_ids_distinct [of ?s2 "[''a'', ''a'']" _ "[''b'']" True] g2
  obtain n2 t2 where b: "bulkIgnoreIds [''b''] True ?s2 = Inr (n2, t2)" "getIgnoredIds t2 = Inr n2"
    by blast
  have "n2 = [''a'', ''b'']" using b(1) g2
    by (simp add: bulkIgnoreIds_def Let_def new_Set_def set_add_def)
  with b have 2: "\<exists>st'. bulkIgnoreIds [''b''] True ?s2 = Inr ([''a'', ''b''], st')
      \<and> getIgnoredIds st' = Inr [''a'', ''b'']"
    by blast
  from g1 d 1 g2 2 show ?thesis by blast
qed

section \<open>Properties of the loader\<close>

lemma params_get_set_same: "params_get (params_set ps name v) name = Some v"
  by (induction ps) (auto simp: params_get_def)

lemma params_get_set_other:
  "other \<noteq> name \<Longrightarrow> params_get (params_set ps name v) other = params_get ps other"
proof (induction ps)
  case Nil
  then show ?case by (simp add: params_get_def)
next
  case (Cons kv ps)
  obtain k w where kv: "kv = (k, w)" by (cases kv)
  have "map_of (filter (\<lambda>(k', w'). k' \<noteq> name) qs) other = map_of qs other" for qs
    using Cons.prems by (induction qs) auto
  with Cons kv show ?case by (auto simp: params_get_def)
qed

lemma retry_target_params:
  "params_get (searchParams (retry_target u)) ''pageSize'' = Some ''100''"
  "params_get (searchParams (retry_target u)) ''page'' = Some ''1''"
  by (simp_all add: retry_target_def params_get_set_same params_get_set_other)







lemma fetch_page_trace: "\<exists>w. snd (fetch_page P u scan (found, tr) p) = tr @ [Fetch w]"
  by (simp add: fetch_page_def Let_def split: fetch_result.splits option.splits sum.splits)

lemma pages_trace:
  "\<exists>ws. snd (foldl (fetch_page P u scan) (found, tr) ps) = tr @ map Fetch ws"
proof (induction ps arbitrary: found tr)
  case Nil
  have "tr = tr @ map Fetch []" by simp
  then show ?case by (metis foldl_Nil snd_conv)
next
  case (Cons p ps)
  obtain found' tr' where step: "fetch_page P u scan (found, tr) p = (found', tr')"
    by (cases "fetch_page P u scan (found, tr) p")
  with fetch_page_trace [of P u scan found tr p] obtain w where w: "tr' = tr @ [Fetch w]"
    by auto
  from Cons.IH [of found' tr'] obtain ws
    where "snd (foldl (fetch_page P u scan) (found', tr') ps) = tr' @ map Fetch ws" by blast
  with w step have "snd (foldl (fetch_page P u scan) (found, tr) (p # ps)) = tr @ map Fetch (w # ws)"
    by simp
  then show ?case by blast
qed

lemma all_pages_trace: "\<exists>ws. snd (all_pages P u data (found, tr)) = tr @ map Fetch ws"
proof -
  have same: "\<exists>ws. tr = tr @ map Fetch ws"
    by (rule exI [of _ "[]"]) simp
  show ?thesis
    using same pages_trace [of P u "scan_date data" found tr]
    by (simp add: all_pages_def split: option.splits)
qed

lemma finish_trace: "snd (finish P url u data (found, tr)) = tr"
  by (simp add: finish_def)

lemma attempt_trace: "\<exists>ws. snd (attempt P tr url) = tr @ map Fetch ws"
proof -
  have none: "\<exists>ws. tr = tr @ map Fetch ws"
    by (rule exI [of _ "[]"]) simp
  have one: "\<exists>ws. tr @ [Fetch url] = tr @ map Fetch ws"
    by (rule exI [of _ "[url]"]) simp
  have more: "\<exists>ws. snd (finish P url u data (all_pages P u data (first, tr @ [Fetch url])))
                 = tr @ map Fetch ws" for u data first
  proof -
    obtain found tr2 where a: "all_pages P u data (first, tr @ [Fetch url]) = (found, tr2)"
      by (cases "all_pages P u data (first, tr @ [Fetch url])")
    with all_pages_trace [of P u data first "tr @ [Fetch url]"]
    obtain ws where "tr2 = tr @ [Fetch url] @ map Fetch ws" by auto
    then have "tr2 = tr @ map Fetch (url # ws)" by simp
    with a show ?thesis by (metis finish_trace)
  qed
  show ?thesis
    using none one more
    by (simp add: attempt_def split: option.splits fetch_result.splits sum.splits)
qed

lemma filter_is_retry_fetches: "filter is_retry (map Fetch ws) = []"
  by (induction ws) (simp_all add: is_retry_def)

lemma attempt_no_retry:
  assumes "url_parse P url = Some v" and "params_get (searchParams v) ''pageSize'' = Some ''100''"
  shows "fst (attempt P tr url) \<noteq> Retrying r"
proof -
  have "fst (finish P url v data acc) \<noteq> Retrying r" for data acc
    using assms(2) by (cases acc) (simp add: finish_def retry_needed_def)
  then show ?thesis
    using assms(1)
    by (simp add: attempt_def split: option.splits fetch_result.splits sum.splits)
qed

lemma attempt_unfold:
  assumes "url_parse P url = Some u" and "responds_with P tr url = Some data"
    and "extracted P tr url u data = Inr found"
  shows "attempt P tr url
         = finish P url u data (found, snd (all_pages P u data
              (projr (records_of P (tr @ [Fetch url]) (scan_date data) data), tr @ [Fetch url])))"
proof -
  from assms(2) obtain r where r: "fetch P tr url = Responds r" "ok r" "body r = Some data"
    by (auto simp: responds_with_def split: fetch_result.splits if_splits)
  from assms(3) obtain first where f: "records_of P (tr @ [Fetch url]) (scan_date data) data = Inr first"
    and g: "fst (all_pages P u data (first, tr @ [Fetch url])) = found"
    by (auto simp: extracted_def split: sum.splits)
  have "all_pages P u data (first, tr @ [Fetch url])
        = (found, snd (all_pages P u data (first, tr @ [Fetch url])))"
    using g by (metis prod.collapse)
  with assms(1) r f show ?thesis by (simp add: attempt_def)
qed

lemma attempt_resolved_url: "attempt P tr url = (Resolved d, tr') \<Longrightarrow> ds_url d = url"
proof -
  have fin: "finish P url u data acc = (Resolved d, t) \<Longrightarrow> ds_url d = url" for u data acc t
    by (cases acc) (auto simp: finish_def split: if_splits)
  assume "attempt P tr url = (Resolved d, tr')"
  then show ?thesis
    by (auto simp: attempt_def split: option.splits fetch_result.splits sum.splits if_splits
        dest: fin)
qed

lemma first_attempt_retries:
  assumes "url_parse P url = Some u"
    and "responds_with P tr url = Some data"
    and "pagination data = Some pg" and "0 < totalCount pg"
    and "extracted P tr url u data = Inr []"
    and "is_public_api u"
    and "params_get (searchParams u) ''pageSize'' \<noteq> Some ''100''"
  shows "\<exists>ws. attempt P tr url = (Retrying (url_href P (retry_target u)), tr @ map Fetch ws)"
proof -
  have need: "retry_needed u data []"
    using assms(3,4,6,7) by (simp add: retry_needed_def)
  let ?t = "snd (all_pages P u data
              (projr (records_of P (tr @ [Fetch url]) (scan_date data) data), tr @ [Fetch url]))"
  have a: "attempt P tr url = (Retrying (url_href P (retry_target u)), ?t)"
    using attempt_unfold [OF assms(1,2,5)] need by (simp add: finish_def)
  from attempt_trace [of P tr url] a obtain ws where "?t = tr @ map Fetch ws" by auto
  with a show ?thesis by auto
qed

lemma loadDataset_settles:
  assumes "url_parse P url = Some v" and "params_get (searchParams v) ''pageSize'' = Some ''100''"
  shows "\<exists>res ws. loadDataset P tr url = Some (res, tr @ map Fetch ws)
           \<and> (\<forall>d. res = Inr d \<longrightarrow> ds_url d = url)"
proof -
  obtain out tr' where a: "attempt P tr url = (out, tr')" by (cases "attempt P tr url")
  with attempt_trace [of P tr url] obtain ws where ws: "tr' = tr @ map Fetch ws" by auto
  from attempt_no_retry [OF assms, of tr] a have nr: "\<And>r. out \<noteq> Retrying r" by simp
  show ?thesis
  proof (cases out)
    case (Rejected e)
    with a ws have "loadDataset P tr url = Some (Inl e, tr @ map Fetch ws)"
      by (subst loadDataset.simps) simp
    then show ?thesis by blast
  next
    case (Retrying r)
    with nr show ?thesis by blast
  next
    case (Resolved d)
    with a ws have "loadDataset P tr url = Some (Inr d, tr @ map Fetch ws)"
      by (subst loadDataset.simps) simp
    moreover from a Resolved have "ds_url d = url" by (simp add: attempt_resolved_url)
    ultimately show ?thesis by blast
  qed
qed

lemma loadDataset_after_retry:
  assumes "url_parse P url = Some u"
    and "responds_with P tr url = Some data"
    and "pagination data = Some pg" and "0 < totalCount pg"
    and "extracted P tr url u data = Inr []"
    and "is_public_api u"
    and "params_get (searchParams u) ''pageSize'' \<noteq> Some ''100''"
    and "url_parse P (url_href P (retry_target u)) = Some (retry_target u)"
  shows "\<exists>res ws ws'. loadDataset P tr url
           = Some (res, tr @ map Fetch ws @ [Retry (url_href P (retry_target u))] @ map Fetch ws')
           \<and> (\<forall>d. res = Inr d \<longrightarrow> ds_url d = url_href P (retry_target u))"
proof -
  let ?r = "url_href P (retry_target u)"
  from first_attempt_retries [OF assms(1-7)]
  obtain ws where a: "attempt P tr url = (Retrying ?r, tr @ map Fetch ws)" by blast
  then have l: "loadDataset P tr url = loadDataset P ((tr @ map Fetch ws) @ [Retry ?r]) ?r"
    by (subst loadDataset.simps) simp
  from loadDataset_settles [OF assms(8) retry_target_params(1), of "(tr @ map Fetch ws) @ [Retry ?r]"]
  obtain res ws' where "loadDataset P ((tr @ map Fetch ws) @ [Retry ?r]) ?r
       = Some (res, ((tr @ map Fetch ws) @ [Retry ?r]) @ map Fetch ws')"
    and "\<forall>d. res = Inr d \<longrightarrow> ds_url d = ?r" by blast
  with l show ?thesis by auto
qed

text \<open>
  C2. When the first response reports a \<open>totalCount\<close> above 0, no record is extracted from
  it and from the further pages, the URL is of the public API and its \<open>pageSize\<close> parameter is
  not 100, then \<open>loadDataset\<close> returns, and among its events there is exactly one retry, to
  the URL rewritten with \<open>pageSize=100\<close> and \<open>page=1\<close>. A load of that URL never asks for a
  retry, whatever it receives, so the calls end at depth one. The platform is taken to parse
  the text of the rewritten URL back into that URL.
\<close>

theorem corrective_retry_once:
  assumes "url_parse P url = Some u"
    and "responds_with P tr url = Some data"
    and "pagination data = Some pg" and "0 < totalCount pg"
    and "extracted P tr url u data = Inr []"
    and "is_public_api u"
    and "params_get (searchParams u) ''pageSize'' \<noteq> Some ''100''"
    and "url_parse P (url_href P (retry_target u)) = Some (retry_target u)"
  shows "\<exists>res tr'. loadDataset P tr url = Some (res, tr')
           \<and> filter is_retry (drop (length tr) tr') = [Retry (url_href P (retry_target u))]
           \<and> params_get (searchParams (retry_target u)) ''pageSize'' = Some ''100''
           \<and> params_get (searchParams (retry_target u)) ''page'' = Some ''1''
           \<and> (\<forall>tr2 r. fst (attempt P tr2 (url_href P (retry_target u))) \<noteq> Retrying r)"
proof -
  let ?r = "url_href P (retry_target u)"
  from loadDataset_after_retry [OF assms]
  obtain res ws ws' where l: "loadDataset P tr url
      = Some (res, tr @ map Fetch ws @ [Retry ?r] @ map Fetch ws')" by blast
  have "filter is_retry (drop (length tr) (tr @ map Fetch ws @ [Retry ?r] @ map Fetch ws'))
        = [Retry ?r]"
    by (simp add: filter_is_retry_fetches is_retry_def)
  moreover have "fst (attempt P tr2 ?r) \<noteq> Retrying r" for tr2 r
    by (rule attempt_no_retry [OF assms(8) retry_target_params(1)])
  ultimately show ?thesis using l retry_target_params [of u] by blast
qed

text \<open>
  C9. In the same situation, a Dataset that \<open>loadDataset\<close> returns has the rewritten retry
  URL in its \<open>url\<close> field, and this is not the URL the caller supplied.
\<close>

theorem retried_dataset_url:
  assumes "url_parse P url = Some u"
    and "responds_with P tr url = Some data"
    and "pagination data = Some pg" and "0 < totalCount pg"
    and "extracted P tr url u data = Inr []"
    and "is_public_api u"
    and "params_get (searchParams u) ''pageSize'' \<noteq> Some ''100''"
    and "url_parse P (url_href P (retry_target u)) = Some (retry_target u)"
    and "loadDataset P tr url = Some (Inr d, tr')"
  shows "ds_url d = url_href P (retry_target u) \<and> ds_url d \<noteq> url"
proof -
  from loadDataset_after_retry [OF assms(1-8)] assms(9)
  have eq: "ds_url d = url_href P (retry_target u)" by auto
  have "url_href P (retry_target u) \<noteq> url"
  proof
    assume "url_href P (retry_target u) = url"
    with assms(1,8) have "u = retry_target u" by simp
    with retry_target_params(1) [of u] assms(7) show False by simp
  qed
  with eq show ?thesis by simp
qed

lemma dataset_name_example:
  assumes "last (js_split (pathname u) ''/'') = ''my_site_audit_2024-05-01.json''"
    and "match_date url = Some ''2024-05-01''"
    and "audit = None \<or> audit = Some []"
  shows "dataset_name url u audit = ''My Site Audit (2024-05-01)''"
proof -
  have e: "strip_extension ''my_site_audit_2024-05-01.json'' = ''my_site_audit_2024-05-01''"
    by code_simp
  have r: "replace_first ''my_site_audit_2024-05-01'' ''2024-05-01'' [] = ''my_site_audit_''"
    by code_simp
  have h: "humanize ''my_site_audit_'' = ''My Site Audit''"
    by code_simp
  have i: "\<not> js_includes ''My Site Audit'' ''2024-05-01''"
    by code_simp
  have s: "\<not> js_includes [] ''_''" "\<not> js_includes [] ''-''"
    by (simp_all add: js_includes_def)
  from assms(3) show ?thesis
    using assms(1,2) e r h i s by (auto simp: dataset_name_def Let_def)
qed

text \<open>
  C7. For a URL whose last path segment is \<open>my_site_audit_2024-05-01.json\<close> and whose first
  date is \<open>2024-05-01\<close>, and a response without an audit name, a load that needs no retry
  returns a Dataset with the name \<open>My Site Audit (2024-05-01)\<close>.
\<close>

theorem derived_name_example:
  assumes "url_parse P url = Some u"
    and "last (js_split (pathname u) ''/'') = ''my_site_audit_2024-05-01.json''"
    and "match_date url = Some ''2024-05-01''"
    and "responds_with P tr url = Some data"
    and "audit_name data = None \<or> audit_name data = Some []"
    and "extracted P tr url u data = Inr found"
    and "\<not> retry_needed u data found"
  shows "\<exists>d tr'. loadDataset P tr url = Some (Inr d, tr')
           \<and> ds_name d = ''My Site Audit (2024-05-01)''"
proof -
  let ?t = "snd (all_pages P u data
              (projr (records_of P (tr @ [Fetch url]) (scan_date data) data), tr @ [Fetch url]))"
  let ?d = "\<lparr> ds_id = local_id P ?t, ds_url = url,
              ds_name = dataset_name url u (audit_name data),
              ds_blockers = found, ds_timestamp = date_now P ?t \<rparr>"
  have "attempt P tr url = (Resolved ?d, ?t)"
    using attempt_unfold [OF assms(1,4,6)] assms(7) by (simp add: finish_def)
  then have "loadDataset P tr url = Some (Inr ?d, ?t)"
    by (subst loadDataset.simps) simp
  moreover have "ds_name ?d = ''My Site Audit (2024-05-01)''"
    using dataset_name_example [OF assms(2,3,5)] by simp
  ultimately show ?thesis by blast
qed


lemma api_facts:
  "is_public_api api_URL"
  "params_get (searchParams api_URL) ''pageSize'' \<noteq> Some ''100''"
  "plain_href (retry_target api_URL) = retry_url"
  "api_url \<noteq> retry_url" "retry_url \<noteq> api_url"
  "match_date api_url = None" "match_date retry_url = None"
  by code_simp+

lemma example_names:
  "dataset_name api_url api_URL (Some ''Site audit'') = ''Site audit''"
  "dataset_name retry_url (retry_target api_URL) (Some ''Site audit'') = ''Site audit''"
  by code_simp+

lemma retry_fills_facts:
  "url_parse retry_fills api_url = Some api_URL"
  "responds_with retry_fills [] api_url = Some (page_of 500 [])"
  "pagination (page_of 500 []) = Some \<lparr> totalPages = 1, pageSize = 500, page = 1, totalCount = 2 \<rparr>"
  "extracted retry_fills [] api_url api_URL (page_of 500 []) = Inr []"
  "url_href retry_fills (retry_target api_URL) = retry_url"
  "url_parse retry_fills retry_url = Some (retry_target api_URL)"
  by (simp_all add: retry_fills_def table_platform_def responds_with_def page_of_def
      extracted_def records_of_def fallbackKeys_def all_pages_def api_facts)

lemma retry_fills_run:
  "loadDataset retry_fills [] api_url
   = Some (Inr \<lparr> ds_id = ''ds_0'', ds_url = retry_url, ds_name = ''Site audit'',
                  ds_blockers = two_blockers, ds_timestamp = 0 \<rparr>,
           [Fetch api_url, Retry retry_url, Fetch retry_url])"
proof -
  have a1: "attempt retry_fills [] api_url = (Retrying retry_url, [Fetch api_url])"
    using attempt_unfold [OF retry_fills_facts(1,2,4)]
    by (simp add: finish_def retry_needed_def retry_fills_facts api_facts
        all_pages_def page_of_def records_of_def fallbackKeys_def)
  have r: "responds_with retry_fills [Fetch api_url, Retry retry_url] retry_url
           = Some (page_of 100 two_blockers)"
    by (simp add: retry_fills_def table_platform_def responds_with_def api_facts)
  have e: "extracted retry_fills [Fetch api_url, Retry retry_url] retry_url (retry_target api_URL)
             (page_of 100 two_blockers) = Inr two_blockers"
    by (simp add: extracted_def records_of_def page_of_def two_blockers_def all_pages_def)
  have a2: "attempt retry_fills [Fetch api_url, Retry retry_url] retry_url
            = (Resolved \<lparr> ds_id = ''ds_0'', ds_url = retry_url, ds_name = ''Site audit'',
                  ds_blockers = two_blockers, ds_timestamp = 0 \<rparr>,
               [Fetch api_url, Retry retry_url, Fetch retry_url])"
    using attempt_unfold [OF retry_fills_facts(6) r e]
    by (simp add: finish_def retry_needed_def two_blockers_def example_names
        all_pages_def page_of_def records_of_def retry_fills_def table_platform_def)
  show ?thesis
    by (subst loadDataset.simps, simp add: a1, subst loadDataset.simps, simp add: a2)
qed

theorem corrective_retry_once_witness:
  "url_parse retry_fills api_url = Some api_URL
   \<and> responds_with retry_fills [] api_url = Some (page_of 500 [])
   \<and> extracted retry_fills [] api_url api_URL (page_of 500 []) = Inr []
   \<and> is_public_api api_URL
   \<and> params_get (searchParams api_URL) ''pageSize'' \<noteq> Some ''100''
   \<and> url_href retry_fills (retry_target api_URL) = retry_url
   \<and> url_parse retry_fills retry_url = Some (retry_target api_URL)
   \<and> (\<exists>res tr'. loadDataset retry_fills [] api_url = Some (res, tr')
          \<and> filter is_retry tr' = [Retry retry_url])
   \<and> (\<forall>tr2 r. fst (attempt retry_fills tr2 retry_url) \<noteq> Retrying r)
   \<and> loadDataset retry_fills [] api_url
       = Some (Inr \<lparr> ds_id = ''ds_0'', ds_url = retry_url, ds_name = ''Site audit'',
                      ds_blockers = two_blockers, ds_timestamp = 0 \<rparr>,
               [Fetch api_url, Retry retry_url, Fetch retry_url])"
proof -
  have p: "url_parse retry_fills (url_href retry_fills (retry_target api_URL))
           = Some (retry_target api_URL)"
    by (simp add: retry_fills_facts)
  have c: "(0::int) < totalCount \<lparr> totalPages = 1, pageSize = 500, page = 1, totalCount = 2 \<rparr>"
    by simp
  from corrective_retry_once [OF retry_fills_facts(1,2,3) c retry_fills_facts(4) api_facts(1,2) p]
  have "\<exists>res tr'. loadDataset retry_fills [] api_url = Some (res, tr')
          \<and> filter is_retry tr' = [Retry retry_url]"
    and "\<forall>tr2 r. fst (attempt retry_fills tr2 retry_url) \<noteq> Retrying r"
    by (auto simp add: retry_fills_facts)
  with retry_fills_facts api_facts retry_fills_run show ?thesis by simp
qed

theorem retried_dataset_url_witness:
  "url_parse retry_fills api_url = Some api_URL
   \<and> responds_with retry_fills [] api_url = Some (page_of 500 [])
   \<and> extracted retry_fills [] api_url api_URL (page_of 500 []) = Inr []
   \<and> is_public_api api_URL
   \<and> params_get (searchParams api_URL) ''pageSize'' \<noteq> Some ''100''
   \<and> url_parse retry_fills (url_href retry_fills (retry_target api_URL)) = Some (retry_target api_URL)
   \<and> (\<exists>d tr'. loadDataset retry_fills [] api_url = Some (Inr d, tr')
          \<and> ds_url d = retry_url \<and> ds_url d \<noteq> api_url)"
proof -
  have p: "url_parse retry_fills (url_href retry_fills (retry_target api_URL))
           = Some (retry_target api_URL)"
    by (simp add: retry_fills_facts)
  have c: "(0::int) < totalCount \<lparr> totalPages = 1, pageSize = 500, page = 1, totalCount = 2 \<rparr>"
    by simp
  from retried_dataset_url [OF retry_fills_facts(1,2,3) c retry_fills_facts(4) api_facts(1,2) p
      retry_fills_run]
  have "\<exists>d tr'. loadDataset retry_fills [] api_url = Some (Inr d, tr')
          \<and> ds_url d = retry_url \<and> ds_url d \<noteq> api_url"
    using retry_fills_run by (simp add: retry_fills_facts)
  with retry_fills_facts api_facts p show ?thesis by simp
qed

text \<open>
  C3. The claim does not hold of this \<open>loadDataset\<close>. Both the URL with a page size of 500 and
  its retry URL are answered with a \<open>totalCount\<close> of 2 and no record: the load retries once
  and then resolves to a Dataset without records. The \<open>loadDataset\<close> of \<open>DataManager.ts\<close>
  rejects the answer to the retry URL with the message about the page size.
\<close>

theorem empty_after_retry_resolves:
  "pagination (page_of 100 []) = Some \<lparr> totalPages = 1, pageSize = 100, page = 1, totalCount = 2 \<rparr>
   \<and> extracted retry_stays_empty [Fetch api_url, Retry retry_url] retry_url (retry_target api_URL)
        (page_of 100 []) = Inr []
   \<and> loadDataset retry_stays_empty [] api_url
       = Some (Inr \<lparr> ds_id = ''ds_0'', ds_url = retry_url, ds_name = ''Site audit'',
                      ds_blockers = [], ds_timestamp = 0 \<rparr>,
               [Fetch api_url, Retry retry_url, Fetch retry_url])
   \<and> loadDataset_DataManager retry_stays_empty [] retry_url
       = (Inl (Error ''The API returned no data for this page size. Please try reducing the pageSize in the URL (e.g., to 100).''),
          [Fetch retry_url])"
proof -
  let ?P = retry_stays_empty
  have u: "url_parse ?P api_url = Some api_URL" "url_parse ?P retry_url = Some (retry_target api_URL)"
    "url_href ?P (retry_target api_URL) = retry_url"
    by (simp_all add: retry_stays_empty_def table_platform_def api_facts)
  have r1: "responds_with ?P [] api_url = Some (page_of 500 [])"
    by (simp add: retry_stays_empty_def table_platform_def responds_with_def)
  have e1: "extracted ?P [] api_url api_URL (page_of 500 []) = Inr []"
    by (simp add: extracted_def records_of_def page_of_def fallbackKeys_def all_pages_def)
  have a1: "attempt ?P [] api_url = (Retrying retry_url, [Fetch api_url])"
    using attempt_unfold [OF u(1) r1 e1]
    by (simp add: finish_def retry_needed_def u api_facts
        all_pages_def page_of_def records_of_def fallbackKeys_def)
  have r2: "responds_with ?P [Fetch api_url, Retry retry_url] retry_url = Some (page_of 100 [])"
    by (simp add: retry_stays_empty_def table_platform_def responds_with_def api_facts)
  have e2: "extracted ?P [Fetch api_url, Retry retry_url] retry_url (retry_target api_URL)
             (page_of 100 []) = Inr []"
    by (simp add: extracted_def records_of_def page_of_def fallbackKeys_def all_pages_def)
  have a2: "attempt ?P [Fetch api_url, Retry retry_url] retry_url
            = (Resolved \<lparr> ds_id = ''ds_0'', ds_url = retry_url, ds_name = ''Site audit'',
                  ds_blockers = [], ds_timestamp = 0 \<rparr>,
               [Fetch api_url, Retry retry_url, Fetch retry_url])"
    using attempt_unfold [OF u(2) r2 e2]
    by (simp add: finish_def retry_needed_def retry_target_params example_names
        all_pages_def page_of_def records_of_def fallbackKeys_def
        retry_stays_empty_def table_platform_def)
  have l: "loadDataset ?P [] api_url
       = Some (Inr \<lparr> ds_id = ''ds_0'', ds_url = retry_url, ds_name = ''Site audit'',
                      ds_blockers = [], ds_timestamp = 0 \<rparr>,
               [Fetch api_url, Retry retry_url, Fetch retry_url])"
    by (subst loadDataset.simps, simp add: a1, subst loadDataset.simps, simp add: a2)
  have o: "loadDataset_DataManager ?P [] retry_url
       = (Inl (Error ''The API returned no data for this page size. Please try reducing the pageSize in the URL (e.g., to 100).''),
          [Fetch retry_url])"
    by (simp add: loadDataset_DataManager_def retry_stays_empty_def table_platform_def
        api_facts page_of_def)
  from e2 l o show ?thesis by (simp add: page_of_def)
qed

theorem derived_name_example_witness:
  "url_parse (table_platform [(file_url, file_URL)] [(file_url, unnamed_response)]) file_url
     = Some file_URL
   \<and> last (js_split (pathname file_URL) ''/'') = ''my_site_audit_2024-05-01.json''
   \<and> match_date file_url = Some ''2024-05-01''
   \<and> audit_name unnamed_response = None
   \<and> (\<exists>d tr'. loadDataset (table_platform [(file_url, file_URL)] [(file_url, unnamed_response)])
                  [] file_url = Some (Inr d, tr')
          \<and> ds_name d = ''My Site Audit (2024-05-01)'')"
proof -
  let ?P = "table_platform [(file_url, file_URL)] [(file_url, unnamed_response)]"
  have u: "url_parse ?P file_url = Some file_URL" by (simp add: table_platform_def)
  have f: "last (js_split (pathname file_URL) ''/'') = ''my_site_audit_2024-05-01.json''"
    by code_simp
  have m: "match_date file_url = Some ''2024-05-01''" by code_simp
  have r: "responds_with ?P [] file_url = Some unnamed_response"
    by (simp add: table_platform_def responds_with_def)
  have a: "audit_name unnamed_response = None \<or> audit_name unnamed_response = Some []"
    by (simp add: unnamed_response_def)
  have e: "extracted ?P [] file_url file_URL unnamed_response = Inr [JObj [(''id'', JStr ''b1'')]]"
    by (simp add: extracted_def records_of_def unnamed_response_def all_pages_def)
  have n: "\<not> retry_needed file_URL unnamed_response [JObj [(''id'', JStr ''b1'')]]"
    by (simp add: retry_needed_def)
  from derived_name_example [OF u f m r a e n] u f m show ?thesis
    by (simp add: unnamed_response_def)
qed



end
